theory Spec2Isabelle
  imports Complex_Main "HOL-Library.Code_Target_Numeral"
begin

section \<open>Data model of the capture screen (src/components/CaptureScreen.tsx)\<close>

text \<open>
  The auto-capture logic of \<^verbatim>\<open>CaptureScreen\<close> is a set of callbacks over React state
  and refs. The model keeps one record with every piece of state the callbacks read or
  write, the browser's timer queue, and logs of what the component hands to its
  collaborators. Times are milliseconds as naturals. Numbers are JavaScript doubles in
  the source; here a number is a real or NaN (rounding and the infinities are outside the
  model, except where written out).

  What the model takes from the environment:
  \<^item> each reaction (an event handler, a timer closure, the continuation of the awaited
    detection call) runs to completion, React applies its state updates together, and
    the effects run before the next reaction;
  \<^item> a timer fires at its due time unless it was cleared before;
  \<^item> the parent's \<^verbatim>\<open>onImageCaptured\<close> is \<^verbatim>\<open>App.handleImageCaptured\<close>, a
    \<^verbatim>\<open>useCallback\<close> without dependencies: it keeps its identity, and it switches the
    application to the crop screen, which unmounts the capture screen;
  \<^item> each call of \<^verbatim>\<open>analyzeFrame\<close> by the sampling interval is an event; the model
    records when the running interval was created, so that a trace can be checked
    against the interval's schedule.
\<close>

datatype DetectionStatus = Idle | Tracking | Locked

text \<open>
  The four coordinates of a bounding box. In a \<open>Box\<close> they are numbers. In a \<open>ParsedBox\<close>,
  the \<^verbatim>\<open>box\<close> object as \<^verbatim>\<open>JSON.parse\<close> returns it, a coordinate may be missing: the
  response schema of the request marks no property of \<^verbatim>\<open>box\<close> as required.
\<close>

record 'c Coordinates =
  xMin :: 'c
  yMin :: 'c
  xMax :: 'c
  yMax :: 'c

type_synonym Box = "real Coordinates"

type_synonym ParsedBox = "real option Coordinates"

datatype number = Num real | NaN

text \<open>\<^verbatim>\<open>IrisDetectionResult\<close>: only the fields the capture screen reads.\<close>

record IrisDetectionResult =
  success :: bool
  box :: "ParsedBox option"

text \<open>
  \<^verbatim>\<open>findEyeInFrame\<close> (services/geminiService.ts). Its whole body is inside
  \<^verbatim>\<open>try\<close>/\<^verbatim>\<open>catch\<close>: the request either yields a parsed response, with its
  \<^verbatim>\<open>eyeFound\<close> flag and maybe a \<^verbatim>\<open>box\<close>, or something throws (the request, reading
  the text, \<^verbatim>\<open>JSON.parse\<close>), and then the function returns a failed result. So the
  promise it returns always resolves.
\<close>

datatype ApiOutcome = ApiResponse bool "ParsedBox option" | ApiError

definition findEyeInFrame :: "ApiOutcome \<Rightarrow> IrisDetectionResult" where
  "findEyeInFrame api =
     (case api of
        ApiResponse eyeFound parsedBox \<Rightarrow>
          (case parsedBox of
             Some b \<Rightarrow> if eyeFound then \<lparr> success = True, box = Some b \<rparr>
                       else \<lparr> success = False, box = None \<rparr>
           | None \<Rightarrow> \<lparr> success = False, box = None \<rparr>)
      | ApiError \<Rightarrow> \<lparr> success = False, box = None \<rparr>)"

text \<open>
  How an awaited promise can end. \<^verbatim>\<open>analyzeFrame\<close> has a \<^verbatim>\<open>catch\<close> block for a
  rejection; since \<^verbatim>\<open>findEyeInFrame\<close> always resolves and nothing else after the
  \<^verbatim>\<open>await\<close> throws, the program never delivers \<open>Rejected\<close>.
\<close>

datatype DetectionOutcome = Resolved IrisDetectionResult | Rejected

text \<open>The three closures the component passes to \<^verbatim>\<open>window.setTimeout\<close>.\<close>

datatype TimerCallback = SteadyCb | CountdownTick1 | CountdownTick2

datatype Timer = Timer (tid: nat) (due: nat) (cb: TimerCallback)

datatype TrackState = Live | Ended

datatype CaptureOrigin = Manual | Auto

record Frame =
  frameWidth :: nat
  frameHeight :: nat
  mime :: string
  quality :: real

record CaptureScreen =
  mounted :: bool
  autoCaptureEnabled :: bool
  detectionStatus :: DetectionStatus
  detectionResult :: "IrisDetectionResult option"
  zoom :: number
  countdown :: "nat option"
  countdownTimeoutsRef :: "nat list"
  steadyTimeoutRef :: "nat option"
  analysisIntervalRef :: "nat option"
  countdownInProgress :: bool
  isAnalyzingRef :: bool
  cameraReady :: bool
  stream :: "TrackState list option"
  streamGen :: nat
  videoWidth :: nat
  videoHeight :: nat
  contextAvailable :: bool
  now :: nat
  timers :: "Timer list"
  nextTimerId :: nat
  inflight :: "DetectionStatus list"
  sentFrames :: "Frame list"
  captured :: "(nat \<times> Frame) list"
  triggerLog :: "(nat \<times> CaptureOrigin) list"
  beeps :: "(nat \<times> nat) list"

text \<open>
  \<^item> \<open>mounted\<close>: the application shows the capture screen. While it does, the refs to the
    video and canvas elements are set; after the unmount they are null and React ignores
    the component's state updates.
  \<^item> \<open>analysisIntervalRef\<close>: the time at which the running sampling interval was
    created, \<open>None\<close> when no interval runs.
  \<^item> \<open>now\<close>, \<open>timers\<close>, \<open>nextTimerId\<close>: the clock and the pending one-shot timers of the
    browser; handles are positive and never reused.
  \<^item> \<open>inflight\<close>: one entry per unresolved \<^verbatim>\<open>findEyeInFrame\<close> call, holding the
    \<^verbatim>\<open>detectionStatus\<close> its \<^verbatim>\<open>analyzeFrame\<close> closure captured.
  \<^item> \<open>stream\<close>: the tracks of the \<^verbatim>\<open>MediaStream\<close> held in state; \<open>streamGen\<close> counts
    the stream objects set so far, so it changes exactly when the state variable does.
  \<^item> \<open>contextAvailable\<close>: whether \<^verbatim>\<open>canvas.getContext('2d')\<close> returns a context.
  \<^item> \<open>sentFrames\<close>: frames given to the detection client; \<open>captured\<close>: frames given to
    \<^verbatim>\<open>onImageCaptured\<close>; \<open>triggerLog\<close>: calls of \<^verbatim>\<open>handleCapture\<close>; \<open>beeps\<close>:
    calls of \<^verbatim>\<open>playBeep\<close> (frequency, duration).
\<close>

definition initial :: "nat \<Rightarrow> nat \<Rightarrow> CaptureScreen" where
  "initial vw vh =
     \<lparr> mounted = True, autoCaptureEnabled = False, detectionStatus = Idle,
       detectionResult = None, zoom = Num 1, countdown = None, countdownTimeoutsRef = [],
       steadyTimeoutRef = None, analysisIntervalRef = None,
       countdownInProgress = False, isAnalyzingRef = False, cameraReady = True,
       stream = Some [Live], streamGen = 1, videoWidth = vw, videoHeight = vh, contextAvailable = True,
       now = 0, timers = [], nextTimerId = 1, inflight = [], sentFrames = [],
       captured = [], triggerLog = [], beeps = [] \<rparr>"

section \<open>Timers\<close>

definition setTimeout :: "TimerCallback \<Rightarrow> nat \<Rightarrow> CaptureScreen \<Rightarrow> nat \<times> CaptureScreen" where
  "setTimeout c d s =
     (nextTimerId s,
      s\<lparr> timers := timers s @ [Timer (nextTimerId s) (now s + d) c],
         nextTimerId := Suc (nextTimerId s) \<rparr>)"

definition clearTimeout :: "nat \<Rightarrow> CaptureScreen \<Rightarrow> CaptureScreen" where
  "clearTimeout i s = s\<lparr> timers := filter (\<lambda>tm. tid tm \<noteq> i) (timers s) \<rparr>"

text \<open>\<^verbatim>\<open>if (ref.current) clearTimeout(ref.current)\<close>; a stored handle is positive, hence truthy.\<close>

definition clearIfSet :: "nat option \<Rightarrow> CaptureScreen \<Rightarrow> CaptureScreen" where
  "clearIfSet r s = (case r of None \<Rightarrow> s | Some i \<Rightarrow> clearTimeout i s)"

definition clearCountdownTimeouts :: "CaptureScreen \<Rightarrow> CaptureScreen" where
  "clearCountdownTimeouts s =
     (fold clearTimeout (countdownTimeoutsRef s) s)\<lparr> countdownTimeoutsRef := [] \<rparr>"

section \<open>Zoom estimation and the analysis frame\<close>

text \<open>
  \<^verbatim>\<open>Math.min(Math.max(1, targetBoxWidth / boxWidthNormalized), 4)\<close> on numbers. In
  JavaScript \<^verbatim>\<open>0.4 / 0\<close> is \<^verbatim>\<open>Infinity\<close>, which the clamp turns into 4; HOL's
  \<open>x / 0 = 0\<close> would give 1, so the zero width is written out.
\<close>

definition targetZoom :: "Box \<Rightarrow> real" where
  "targetZoom b =
     (let boxWidthNormalized = xMax b - xMin b;
          targetBoxWidth = 2 / 5
      in if boxWidthNormalized = 0 then 4
         else min (max 1 (targetBoxWidth / boxWidthNormalized)) 4)"

text \<open>
  The same expression on the box of a response. A missing \<^verbatim>\<open>xMin\<close> or \<^verbatim>\<open>xMax\<close> is
  \<^verbatim>\<open>undefined\<close>; the subtraction then gives NaN, and NaN goes through the division,
  \<^verbatim>\<open>Math.max\<close> and \<^verbatim>\<open>Math.min\<close>. The y coordinates are not read.
\<close>

definition newZoom :: "ParsedBox \<Rightarrow> number" where
  "newZoom b =
     (case xMin b of
        None \<Rightarrow> NaN
      | Some x0 \<Rightarrow>
          (case xMax b of
             None \<Rightarrow> NaN
           | Some x1 \<Rightarrow> Num (targetZoom \<lparr> xMin = x0, yMin = 0, xMax = x1, yMax = 0 \<rparr>)))"

text \<open>\<^verbatim>\<open>setZoom(z => z + (newZoom - z) * 0.2)\<close>, on numbers and with NaN.\<close>

definition smoothZoom :: "real \<Rightarrow> real \<Rightarrow> real" where
  "smoothZoom target z = z + (target - z) * (1 / 5)"

definition smoothTowards :: "number \<Rightarrow> number \<Rightarrow> number" where
  "smoothTowards target z =
     (case target of
        NaN \<Rightarrow> NaN
      | Num t \<Rightarrow> (case z of NaN \<Rightarrow> NaN | Num v \<Rightarrow> Num (smoothZoom t v)))"

text \<open>
  \<^verbatim>\<open>canvas.width = 640; canvas.height = (video.videoHeight / video.videoWidth) * 640\<close>,
  then \<^verbatim>\<open>canvas.toDataURL('image/jpeg', 0.8)\<close>. \<^verbatim>\<open>canvas.height\<close> is a 32-bit
  unsigned attribute: assigning to it truncates to an integer and wraps modulo \<open>2 ^ 32\<close>;
  a video without dimensions gives NaN or Infinity, stored as 0.
\<close>

definition analysisFrame :: "nat \<Rightarrow> nat \<Rightarrow> Frame" where
  "analysisFrame vw vh =
     \<lparr> frameWidth = 640,
       frameHeight = (if vw = 0 then 0 else ((vh * 640) div vw) mod 2 ^ 32),
       mime = ''image/jpeg'',
       quality = 4 / 5 \<rparr>"

text \<open>
  \<^verbatim>\<open>handleCapture\<close> draws the video at its own size (\<^verbatim>\<open>videoWidth\<close> and
  \<^verbatim>\<open>videoHeight\<close> are 32-bit unsigned already) and encodes at quality 0.95.
\<close>

definition captureFrame :: "nat \<Rightarrow> nat \<Rightarrow> Frame" where
  "captureFrame vw vh =
     \<lparr> frameWidth = vw, frameHeight = vh, mime = ''image/jpeg'', quality = 19 / 20 \<rparr>"

section \<open>Capture\<close>

definition stopStream :: "CaptureScreen \<Rightarrow> CaptureScreen" where
  "stopStream s =
     (case stream s of
        None \<Rightarrow> s
      | Some ts \<Rightarrow> s\<lparr> stream := Some (map (\<lambda>_. Ended) ts) \<rparr>)"

text \<open>
  \<^verbatim>\<open>App.handleImageCaptured\<close>: the application keeps the image and calls
  \<^verbatim>\<open>setScreen(AppScreen.CROP)\<close>, so its next render no longer contains the capture
  screen.
\<close>

definition onImageCaptured :: "Frame \<Rightarrow> CaptureScreen \<Rightarrow> CaptureScreen" where
  "onImageCaptured f s = s\<lparr> captured := captured s @ [(now s, f)], mounted := False \<rparr>"

text \<open>
  \<^verbatim>\<open>handleCapture\<close>. The refs \<^verbatim>\<open>videoRef.current\<close> and \<^verbatim>\<open>canvasRef.current\<close> are
  set exactly while the component is mounted.
\<close>

definition handleCapture :: "CaptureOrigin \<Rightarrow> CaptureScreen \<Rightarrow> CaptureScreen" where
  "handleCapture origin s =
     (let s1 = s\<lparr> triggerLog := triggerLog s @ [(now s, origin)] \<rparr>
      in if mounted s1 \<and> cameraReady s1 \<and> contextAvailable s1
         then stopStream (onImageCaptured (captureFrame (videoWidth s1) (videoHeight s1)) s1)
         else s1)"

text \<open>
  \<^verbatim>\<open>playBeep\<close>: the audio context is not modelled, only the tones asked for.
\<close>

definition playBeep :: "nat \<Rightarrow> nat \<Rightarrow> CaptureScreen \<Rightarrow> CaptureScreen" where
  "playBeep frequency duration s = s\<lparr> beeps := beeps s @ [(frequency, duration)] \<rparr>"

section \<open>Enable and disable\<close>

text \<open>\<^verbatim>\<open>resetAutoCaptureState\<close>.\<close>

definition resetAutoCaptureState :: "CaptureScreen \<Rightarrow> CaptureScreen" where
  "resetAutoCaptureState s =
     (let s1 = clearIfSet (steadyTimeoutRef s) s;
          s2 = clearCountdownTimeouts s1
      in s2\<lparr> countdownInProgress := False, analysisIntervalRef := None,
             steadyTimeoutRef := None,
             detectionStatus := Idle, detectionResult := None,
             countdown := None, zoom := Num 1 \<rparr>)"

definition handleToggleAutoCapture :: "CaptureScreen \<Rightarrow> CaptureScreen" where
  "handleToggleAutoCapture s =
     (if autoCaptureEnabled s
      then (resetAutoCaptureState s)\<lparr> autoCaptureEnabled := False \<rparr>
      else s\<lparr> detectionStatus := Idle, autoCaptureEnabled := True \<rparr>)"

section \<open>The sampling step \<^verbatim>\<open>analyzeFrame\<close>\<close>

text \<open>
  The part before the \<^verbatim>\<open>await\<close>: guard, frame grab, start of the detection call.
  Drawing and encoding the frame are taken not to throw. The interval effect depends on
  \<^verbatim>\<open>analyzeFrame\<close>, so the interval calls the function of the latest render: the
  \<^verbatim>\<open>detectionStatus\<close> in its closure is the state's value when the call begins, and it
  is that value the continuation tests after the \<^verbatim>\<open>await\<close>.
\<close>

definition analyzeFrame_begin :: "CaptureScreen \<Rightarrow> CaptureScreen" where
  "analyzeFrame_begin s =
     (if isAnalyzingRef s \<or> \<not> mounted s \<or> \<not> autoCaptureEnabled s then s
      else if \<not> contextAvailable s then s\<lparr> isAnalyzingRef := False \<rparr>
      else s\<lparr> isAnalyzingRef := True,
              sentFrames := sentFrames s @ [analysisFrame (videoWidth s) (videoHeight s)],
              inflight := inflight s @ [detectionStatus s] \<rparr>)"

text \<open>The branch \<^verbatim>\<open>if (result.success && result.box)\<close>.\<close>

definition onDetected :: "DetectionStatus \<Rightarrow> IrisDetectionResult \<Rightarrow> ParsedBox \<Rightarrow> CaptureScreen \<Rightarrow> CaptureScreen" where
  "onDetected closureStatus r b s =
     (let s1 = s\<lparr> detectionResult := Some r \<rparr>;
          s2 = (if closureStatus \<noteq> Locked then s1\<lparr> detectionStatus := Tracking \<rparr> else s1);
          s3 = s2\<lparr> zoom := smoothTowards (newZoom b) (zoom s2) \<rparr>;
          s4 = clearIfSet (steadyTimeoutRef s3) s3
      in if \<not> countdownInProgress s4
         then (case setTimeout SteadyCb 500 s4 of
                 (i, s5) \<Rightarrow> s5\<lparr> steadyTimeoutRef := Some i \<rparr>)
         else s4)"

text \<open>The \<^verbatim>\<open>else\<close> branch.\<close>

definition onMissed :: "CaptureScreen \<Rightarrow> CaptureScreen" where
  "onMissed s =
     (let s1 = clearIfSet (steadyTimeoutRef s) s
      in s1\<lparr> detectionStatus := Idle, detectionResult := None,
             zoom := smoothTowards (Num 1) (zoom s1) \<rparr>)"

text \<open>The \<^verbatim>\<open>catch\<close> block.\<close>

definition onError :: "CaptureScreen \<Rightarrow> CaptureScreen" where
  "onError s = s\<lparr> detectionStatus := Idle, zoom := Num 1 \<rparr>"

text \<open>
  The part after the \<^verbatim>\<open>await\<close>, with the \<^verbatim>\<open>finally\<close> block. Without a call in flight
  there is nothing to resume.
\<close>

definition analyzeFrame_resume :: "DetectionOutcome \<Rightarrow> CaptureScreen \<Rightarrow> CaptureScreen" where
  "analyzeFrame_resume outcome s =
     (case inflight s of
        [] \<Rightarrow> s
      | closureStatus # rest \<Rightarrow>
          (let s1 = (case outcome of
                       Rejected \<Rightarrow> onError s
                     | Resolved r \<Rightarrow>
                         (case box r of
                            Some b \<Rightarrow> if success r then onDetected closureStatus r b s
                                      else onMissed s
                          | None \<Rightarrow> onMissed s))
           in s1\<lparr> isAnalyzingRef := False, inflight := rest \<rparr>))"

section \<open>The effects\<close>

text \<open>
  Body of the countdown effect, with dependencies
  \<^verbatim>\<open>[detectionStatus, autoCaptureEnabled, handleCapture, playBeep, clearCountdownTimeouts]\<close>.
\<close>

definition countdownEffect :: "CaptureScreen \<Rightarrow> CaptureScreen" where
  "countdownEffect s =
     (if detectionStatus s = Locked \<and> autoCaptureEnabled s \<and> \<not> countdownInProgress s
      then (let s1 = playBeep 440 100 (s\<lparr> countdownInProgress := True \<rparr>);
                s2 = s1\<lparr> countdown := Some 2 \<rparr>
            in case setTimeout CountdownTick1 1000 s2 of
                 (t1, s3) \<Rightarrow>
                   (case setTimeout CountdownTick2 2000 s3 of
                      (t2, s4) \<Rightarrow> s4\<lparr> countdownTimeoutsRef := [t1, t2] \<rparr>))
      else if detectionStatus s \<noteq> Locked \<and> countdownInProgress s
      then (clearCountdownTimeouts s)\<lparr> countdown := None, countdownInProgress := False \<rparr>
      else s)"

text \<open>
  The interval effect, with dependencies \<^verbatim>\<open>[autoCaptureEnabled, cameraReady, analyzeFrame]\<close>:
  its cleanup clears the running interval, its body creates a new one when the feature
  is enabled and the camera ready. The new interval calls \<^verbatim>\<open>analyzeFrame\<close> every
  750 ms, counted from its creation.
\<close>

definition intervalEffect :: "CaptureScreen \<Rightarrow> CaptureScreen" where
  "intervalEffect s =
     s\<lparr> analysisIntervalRef :=
          (if autoCaptureEnabled s \<and> cameraReady s then Some (now s) else None) \<rparr>"

text \<open>
  When the component unmounts the cleanups of its effects run: the countdown timers and
  the interval are cleared and the camera's tracks stopped.
\<close>

definition unmountCleanup :: "CaptureScreen \<Rightarrow> CaptureScreen" where
  "unmountCleanup s = stopStream ((clearCountdownTimeouts s)\<lparr> analysisIntervalRef := None \<rparr>)"

text \<open>
  After each reaction React renders and runs, for every effect with a changed
  dependency, first the cleanup and then the body. Of the countdown effect's
  dependencies \<^verbatim>\<open>playBeep\<close> and \<^verbatim>\<open>clearCountdownTimeouts\<close> never change;
  \<^verbatim>\<open>handleCapture\<close> is a \<^verbatim>\<open>useCallback\<close> over \<^verbatim>\<open>cameraReady\<close> and, through
  \<^verbatim>\<open>stopStream\<close>, over \<^verbatim>\<open>stream\<close>, so it is a new function exactly when one of
  these two state variables changed. \<^verbatim>\<open>analyzeFrame\<close> is a \<^verbatim>\<open>useCallback\<close> over
  \<^verbatim>\<open>autoCaptureEnabled\<close> and \<^verbatim>\<open>detectionStatus\<close>.
\<close>

definition countdownDepsChanged :: "CaptureScreen \<Rightarrow> CaptureScreen \<Rightarrow> bool" where
  "countdownDepsChanged old new =
     (detectionStatus new \<noteq> detectionStatus old \<or>
      autoCaptureEnabled new \<noteq> autoCaptureEnabled old \<or>
      cameraReady new \<noteq> cameraReady old \<or>
      streamGen new \<noteq> streamGen old)"

definition intervalDepsChanged :: "CaptureScreen \<Rightarrow> CaptureScreen \<Rightarrow> bool" where
  "intervalDepsChanged old new =
     (autoCaptureEnabled new \<noteq> autoCaptureEnabled old \<or>
      cameraReady new \<noteq> cameraReady old \<or>
      detectionStatus new \<noteq> detectionStatus old)"

definition commit :: "CaptureScreen \<Rightarrow> CaptureScreen \<Rightarrow> CaptureScreen" where
  "commit old new =
     (if \<not> mounted new then (if mounted old then unmountCleanup new else new)
      else
        (let s1 = (if countdownDepsChanged old new
                   then countdownEffect (clearCountdownTimeouts new) else new)
         in if intervalDepsChanged old new then intervalEffect s1 else s1))"

text \<open>
  React ignores the state updates of an unmounted component; what a pending closure does
  to refs, timers and the outside world still happens.
\<close>

definition keepState :: "CaptureScreen \<Rightarrow> CaptureScreen \<Rightarrow> CaptureScreen" where
  "keepState old new =
     new\<lparr> autoCaptureEnabled := autoCaptureEnabled old,
          detectionStatus := detectionStatus old,
          detectionResult := detectionResult old,
          zoom := zoom old,
          countdown := countdown old,
          cameraReady := cameraReady old,
          streamGen := streamGen old \<rparr>"

text \<open>The end of a reaction that began in \<open>old\<close> and left \<open>new\<close>.\<close>

definition settle :: "CaptureScreen \<Rightarrow> CaptureScreen \<Rightarrow> CaptureScreen" where
  "settle old new = commit old (if mounted old then new else keepState old new)"

section \<open>Events\<close>

text \<open>
  The camera: the switch button changes \<^verbatim>\<open>facingMode\<close>, whose effect stops the tracks
  of the current stream and calls \<^verbatim>\<open>setCameraReady(false)\<close>; later \<^verbatim>\<open>getUserMedia\<close>
  resolves (\<^verbatim>\<open>setStream\<close>), and then the video's \<^verbatim>\<open>onloadedmetadata\<close> calls
  \<^verbatim>\<open>setCameraReady(true)\<close>. The three are separate reactions; the model lets them come
  in any order.
\<close>

datatype CameraEvent = SwitchCamera | StreamAcquired | LoadedMetadata

definition cameraChange :: "CameraEvent \<Rightarrow> CaptureScreen \<Rightarrow> CaptureScreen" where
  "cameraChange c s =
     (case c of
        SwitchCamera \<Rightarrow> (stopStream s)\<lparr> cameraReady := False \<rparr>
      | StreamAcquired \<Rightarrow> s\<lparr> stream := Some [Live], streamGen := Suc (streamGen s) \<rparr>
      | LoadedMetadata \<Rightarrow> s\<lparr> cameraReady := True \<rparr>)"

datatype Event =
    AnalyzeTick
  | DetectionDone DetectionOutcome
  | ToggleAutoCapture
  | CaptureButton
  | Camera CameraEvent

text \<open>
  The buttons and the camera effect are gone once the component is unmounted (a stream
  acquired after the unmount is stopped at once and not stored).
\<close>

definition react :: "Event \<Rightarrow> CaptureScreen \<Rightarrow> CaptureScreen" where
  "react e s =
     (case e of
        AnalyzeTick \<Rightarrow> analyzeFrame_begin s
      | DetectionDone outcome \<Rightarrow> analyzeFrame_resume outcome s
      | ToggleAutoCapture \<Rightarrow> if mounted s then handleToggleAutoCapture s else s
      | CaptureButton \<Rightarrow> if mounted s then handleCapture Manual s else s
      | Camera c \<Rightarrow> if mounted s then cameraChange c s else s)"

definition step :: "Event \<Rightarrow> CaptureScreen \<Rightarrow> CaptureScreen" where
  "step e s = settle s (react e s)"

text \<open>
  The event the program receives when the request of the detection call in flight ends
  with \<open>api\<close>.
\<close>

definition detectionCompleted :: "ApiOutcome \<Rightarrow> Event" where
  "detectionCompleted api = DetectionDone (Resolved (findEyeInFrame api))"

text \<open>The closures run by the timers.\<close>

definition runCallback :: "TimerCallback \<Rightarrow> CaptureScreen \<Rightarrow> CaptureScreen" where
  "runCallback c s =
     (case c of
        SteadyCb \<Rightarrow> s\<lparr> detectionStatus := Locked \<rparr>
      | CountdownTick1 \<Rightarrow> playBeep 440 100 (s\<lparr> countdown := Some 1 \<rparr>)
      | CountdownTick2 \<Rightarrow>
          (handleCapture Auto (playBeep 880 200 (s\<lparr> countdown := None \<rparr>)))
            \<lparr> countdownInProgress := False \<rparr>)"

text \<open>A pending timer fires at its due time: it leaves the queue and its closure runs.\<close>

definition fire :: "Timer \<Rightarrow> CaptureScreen \<Rightarrow> CaptureScreen" where
  "fire tm s =
     settle s (runCallback (cb tm)
                 (s\<lparr> now := max (now s) (due tm), timers := remove1 tm (timers s) \<rparr>))"

text \<open>The timer that fires first: the earliest due, the oldest among equals.\<close>

fun earliest :: "Timer list \<Rightarrow> Timer option" where
  "earliest [] = None"
| "earliest (x # xs) =
     (case earliest xs of
        None \<Rightarrow> Some x
      | Some y \<Rightarrow> if due y < due x then Some y else Some x)"

definition nextDue :: "nat \<Rightarrow> CaptureScreen \<Rightarrow> Timer option" where
  "nextDue t s =
     (case earliest (timers s) of
        None \<Rightarrow> None
      | Some tm \<Rightarrow> if due tm \<le> t then Some tm else None)"

text \<open>A bound on the firings still to come, used for the termination of \<open>advance\<close>.\<close>

definition pendingWork :: "CaptureScreen \<Rightarrow> nat" where
  "pendingWork s = length (timers s) + 2 * length (filter (\<lambda>tm. cb tm = SteadyCb) (timers s))"

section \<open>Letting time pass\<close>

text \<open>
  Each firing removes one timer; only the steadiness closure can make the countdown
  effect run, which adds at most the two countdown timers. So a steadiness timer counts
  three.
\<close>

lemma fold_clearTimeout:
  "fold clearTimeout js s = s\<lparr> timers := filter (\<lambda>tm. tid tm \<notin> set js) (timers s) \<rparr>"
proof (induction js arbitrary: s)
  case Nil
  show ?case by simp
next
  case (Cons j js)
  have "fold clearTimeout (j # js) s = fold clearTimeout js (clearTimeout j s)"
    by simp
  also have "\<dots> = (clearTimeout j s)\<lparr> timers :=
                 filter (\<lambda>tm. tid tm \<notin> set js) (timers (clearTimeout j s)) \<rparr>"
    by (rule Cons.IH)
  also have "\<dots> = s\<lparr> timers := filter (\<lambda>tm. tid tm \<notin> set (j # js)) (timers s) \<rparr>"
    unfolding clearTimeout_def by (simp add: conj_commute)
  finally show ?case .
qed

lemma clearCountdownTimeouts_eq:
  "clearCountdownTimeouts s =
     s\<lparr> timers := filter (\<lambda>tm. tid tm \<notin> set (countdownTimeoutsRef s)) (timers s),
        countdownTimeoutsRef := [] \<rparr>"
  by (simp add: clearCountdownTimeouts_def fold_clearTimeout)

lemma earliest_mem: "earliest xs = Some tm \<Longrightarrow> tm \<in> set xs"
  by (induction xs arbitrary: tm) (auto split: option.splits if_splits)

lemma pendingWork_filter:
  "length (filter P xs) + 2 * length (filter (\<lambda>x. P x \<and> Q x) xs)
     \<le> length xs + 2 * length (filter Q xs)"
  by (induction xs) auto

lemma pendingWork_clearCountdown: "pendingWork (clearCountdownTimeouts s) \<le> pendingWork s"
  by (simp add: clearCountdownTimeouts_eq pendingWork_def pendingWork_filter)

lemma pendingWork_countdownEffect: "pendingWork (countdownEffect s) \<le> pendingWork s + 2"
  using pendingWork_clearCountdown [of s]
  by (simp add: countdownEffect_def setTimeout_def playBeep_def pendingWork_def
        clearCountdownTimeouts_eq Let_def)

lemma pendingWork_intervalEffect: "pendingWork (intervalEffect s) = pendingWork s"
  by (simp add: intervalEffect_def pendingWork_def)

lemma pendingWork_unmountCleanup: "pendingWork (unmountCleanup s) \<le> pendingWork s"
  using pendingWork_clearCountdown [of s]
  by (simp add: unmountCleanup_def stopStream_def pendingWork_def clearCountdownTimeouts_eq
        split: option.splits)

lemma pendingWork_commit:
  "pendingWork (commit old new)
     \<le> pendingWork new + (if countdownDepsChanged old new then 2 else 0)"
  using pendingWork_countdownEffect [of "clearCountdownTimeouts new"]
        pendingWork_clearCountdown [of new] pendingWork_unmountCleanup [of new]
  by (simp add: commit_def Let_def pendingWork_intervalEffect)

lemma pendingWork_keepState: "pendingWork (keepState old new) = pendingWork new"
  by (simp add: keepState_def pendingWork_def)

lemma timers_runCallback: "timers (runCallback c s) = timers s"
  by (cases c) (simp_all add: runCallback_def playBeep_def handleCapture_def stopStream_def
        onImageCaptured_def Let_def split: option.splits)

lemma deps_runCallback:
  "c \<noteq> SteadyCb \<Longrightarrow> detectionStatus (runCallback c s) = detectionStatus s \<and>
     autoCaptureEnabled (runCallback c s) = autoCaptureEnabled s \<and>
     cameraReady (runCallback c s) = cameraReady s \<and>
     streamGen (runCallback c s) = streamGen s"
  by (cases c) (simp_all add: runCallback_def playBeep_def handleCapture_def stopStream_def
        onImageCaptured_def Let_def split: option.splits)

lemma pendingWork_remove1:
  "tm \<in> set xs \<Longrightarrow>
   length (remove1 tm xs) + 2 * length (filter (\<lambda>x. cb x = SteadyCb) (remove1 tm xs))
     + (if cb tm = SteadyCb then 3 else 1)
   = length xs + 2 * length (filter (\<lambda>x. cb x = SteadyCb) xs)"
  by (induction xs) auto

lemma pendingWork_fire:
  assumes "tm \<in> set (timers s)"
  shows "pendingWork (fire tm s) < pendingWork s"
proof -
  let ?s1 = "s\<lparr> now := max (now s) (due tm), timers := remove1 tm (timers s) \<rparr>"
  let ?s2 = "runCallback (cb tm) ?s1"
  let ?s3 = "if mounted s then ?s2 else keepState s ?s2"
  have work: "pendingWork ?s3 = pendingWork ?s1"
    by (simp add: pendingWork_keepState) (simp add: pendingWork_def timers_runCallback)
  have fire: "fire tm s = commit s ?s3"
    by (simp add: fire_def settle_def)
  show ?thesis
  proof (cases "cb tm = SteadyCb")
    case True
    have "pendingWork ?s1 + 3 = pendingWork s"
      using pendingWork_remove1 [OF assms] True by (simp add: pendingWork_def)
    moreover have "pendingWork (fire tm s) \<le> pendingWork ?s3 + 2"
      using pendingWork_commit [of s ?s3] unfolding fire by (simp split: if_splits)
    ultimately show ?thesis using work by linarith
  next
    case False
    have "\<not> countdownDepsChanged s ?s3"
      using deps_runCallback [OF False, of ?s1]
      by (simp add: countdownDepsChanged_def keepState_def)
    then have "pendingWork (fire tm s) \<le> pendingWork ?s3"
      using pendingWork_commit [of s ?s3] unfolding fire by simp
    moreover have "pendingWork ?s1 + 1 = pendingWork s"
      using pendingWork_remove1 [OF assms] False by (simp add: pendingWork_def)
    ultimately show ?thesis using work by linarith
  qed
qed

text \<open>
  \<open>advance t\<close> lets the clock reach \<open>t\<close>: every timer due by then fires, in order, at
  its due time, and so do the timers those firings start if they are due by \<open>t\<close> too.
\<close>

function advance :: "nat \<Rightarrow> CaptureScreen \<Rightarrow> CaptureScreen" where
  "advance t s =
     (case nextDue t s of
        None \<Rightarrow> s\<lparr> now := max (now s) t \<rparr>
      | Some tm \<Rightarrow> advance t (fire tm s))"
  by pat_completeness auto
termination
proof (relation "measure (\<lambda>(t, s). pendingWork s)")
  show "wf (measure (\<lambda>(t, s). pendingWork s))" by simp
next
  fix t s tm
  assume "nextDue t s = Some tm"
  then have "tm \<in> set (timers s)"
    by (auto simp: nextDue_def dest: earliest_mem split: option.splits if_splits)
  then show "((t, fire tm s), (t, s)) \<in> measure (\<lambda>(t, s). pendingWork s)"
    by (simp add: pendingWork_fire)
qed

declare advance.simps [simp del]

text \<open>A timed trace: the clock advances to each event's time, then the event is handled.\<close>

fun run :: "(nat \<times> Event) list \<Rightarrow> CaptureScreen \<Rightarrow> CaptureScreen" where
  "run [] s = s"
| "run ((t, e) # es) s = run es (step e (advance t s))"

section \<open>Notions used in the statements, and example states\<close>

text \<open>The clamp of the specification: \<open>clamp(x, lo, hi)\<close>.\<close>

definition clamp_spec :: "real \<Rightarrow> real \<Rightarrow> real \<Rightarrow> real" where
  "clamp_spec x lo hi = (if x < lo then lo else if hi < x then hi else x)"

text \<open>The longer edge of a frame, in pixels.\<close>

definition longerEdge :: "Frame \<Rightarrow> nat" where
  "longerEdge f = max (frameWidth f) (frameHeight f)"

text \<open>
  Example data: an eye box of width 0.1 and a box object without coordinates; and what
  the detection call resolves with when the response reports that eye box, reports no
  eye, reports an eye with the box without coordinates, or when the request fails.
\<close>

definition eyeBox :: ParsedBox where
  "eyeBox = \<lparr> xMin = Some (3 / 10), yMin = Some (2 / 5), xMax = Some (2 / 5), yMax = Some (1 / 2) \<rparr>"

definition emptyBox :: ParsedBox where
  "emptyBox = \<lparr> xMin = None, yMin = None, xMax = None, yMax = None \<rparr>"

definition foundEye :: DetectionOutcome where
  "foundEye = Resolved (findEyeInFrame (ApiResponse True (Some eyeBox)))"

definition noEye :: DetectionOutcome where
  "noEye = Resolved (findEyeInFrame (ApiResponse False None))"

definition foundEmptyBox :: DetectionOutcome where
  "foundEmptyBox = Resolved (findEyeInFrame (ApiResponse True (Some emptyBox)))"

definition requestFailed :: DetectionOutcome where
  "requestFailed = Resolved (findEyeInFrame ApiError)"

text \<open>
  A trace the program can go through: times do not go back, a sampling tick comes a
  multiple of 750 ms after the running interval was created, a detection call ends only
  if one is in flight and it ends resolved, and the buttons and the camera act only on
  the mounted screen.
\<close>

definition tickDue :: "nat \<Rightarrow> CaptureScreen \<Rightarrow> bool" where
  "tickDue t s =
     (case analysisIntervalRef s of
        None \<Rightarrow> False
      | Some t0 \<Rightarrow> t0 < t \<and> (t - t0) mod 750 = 0)"

definition possible :: "nat \<Rightarrow> Event \<Rightarrow> CaptureScreen \<Rightarrow> bool" where
  "possible t e s =
     (case e of
        AnalyzeTick \<Rightarrow> tickDue t s
      | DetectionDone outcome \<Rightarrow> inflight s \<noteq> [] \<and> outcome \<noteq> Rejected
      | ToggleAutoCapture \<Rightarrow> mounted s
      | CaptureButton \<Rightarrow> mounted s
      | Camera c \<Rightarrow> mounted s)"

fun feasible :: "(nat \<times> Event) list \<Rightarrow> CaptureScreen \<Rightarrow> bool" where
  "feasible [] s = True"
| "feasible ((t, e) # es) s =
     (now s \<le> t \<and> possible t e (advance t s) \<and> feasible es (step e (advance t s)))"

text \<open>
  A 1920 x 1080 camera. Auto-capture is switched on at 0 ms, so the first sampling tick
  comes at 750 ms and starts the first detection call.
\<close>

definition firstCall :: CaptureScreen where
  "firstCall = run [(0, ToggleAutoCapture), (750, AnalyzeTick)] (initial 1920 1080)"

text \<open>
  The first call resolves with the eye box at 900 ms: the state is tracking and the
  steadiness timer is due at 1400 ms. The change of state restarts the interval.
\<close>

definition firstDetection :: CaptureScreen where
  "firstDetection = run [(900, DetectionDone foundEye)] firstCall"

text \<open>
  At 1400 ms the steadiness timer has fired and the countdown has started; the interval
  is restarted once more, so the next tick comes at 2150 ms.
\<close>

definition lockedCounting :: CaptureScreen where
  "lockedCounting = advance 1400 firstDetection"

text \<open>The tick at 2150 ms starts a call whose closure holds the locked state.\<close>

definition lockedInFlight :: CaptureScreen where
  "lockedInFlight = run [(2150, AnalyzeTick)] lockedCounting"

text \<open>
  With that call in flight the user switches auto-capture off at 2200 ms and on again at
  2300 ms (the new interval ticks at 3050 ms). The call resolves with the eye box at
  2700 ms; its closure holds \<open>Locked\<close>, so it leaves the idle state as it is, hence the
  interval too, and starts a steadiness timer due at 3200 ms. The tick at 3050 ms starts
  the next call.
\<close>

definition restartPending :: CaptureScreen where
  "restartPending =
     run [(2200, ToggleAutoCapture), (2300, ToggleAutoCapture),
          (2700, DetectionDone foundEye), (3050, AnalyzeTick)] lockedInFlight"

text \<open>The whole trace to that state.\<close>

definition restartTrace :: "(nat \<times> Event) list" where
  "restartTrace =
     [(0, ToggleAutoCapture), (750, AnalyzeTick), (900, DetectionDone foundEye),
      (2150, AnalyzeTick), (2200, ToggleAutoCapture), (2300, ToggleAutoCapture),
      (2700, DetectionDone foundEye), (3050, AnalyzeTick)]"


text \<open>
  Detections go on during the countdown that started at 1400 ms: the ticks at 2150 and
  2900 ms start calls, which resolve with the eye box at 2300 and 3000 ms.
\<close>

definition laterDetections :: "(nat \<times> Event) list" where
  "laterDetections =
     [(2150, AnalyzeTick), (2300, DetectionDone foundEye),
      (2900, AnalyzeTick), (3000, DetectionDone foundEye)]"

text \<open>A response has a usable box: \<^verbatim>\<open>result.success && result.box\<close>.\<close>

definition usable :: "IrisDetectionResult \<Rightarrow> bool" where
  "usable r = (success r \<and> box r \<noteq> None)"





text \<open>The in-flight flag is set exactly while one detection call is unresolved.\<close>

definition singleFlight :: "CaptureScreen \<Rightarrow> bool" where
  "singleFlight s = (length (inflight s) = (if isAnalyzingRef s then 1 else 0))"

text \<open>
  The tracks \<open>after\<close> are the tracks \<open>before\<close>, every one of them stopped: the stream is
  the same, with as many tracks, and none is live.
\<close>

definition tracksStopped :: "TrackState list option \<Rightarrow> TrackState list option \<Rightarrow> bool" where
  "tracksStopped before after =
     (case before of
        None \<Rightarrow> after = None
      | Some ts \<Rightarrow>
          (case after of
             None \<Rightarrow> False
           | Some ts' \<Rightarrow> length ts' = length ts \<and> list_all (\<lambda>t. t = Ended) ts'))"

text \<open>
  Handles are issued in increasing order, so every handle in the queue or in a ref is
  below the next one; and every pending countdown timer is one of those whose handles
  the component keeps in \<^verbatim>\<open>countdownTimeoutsRef\<close>.
\<close>

definition wellFormed :: "CaptureScreen \<Rightarrow> bool" where
  "wellFormed s =
     ((\<forall>tm \<in> set (timers s).
          tid tm < nextTimerId s \<and>
          (cb tm \<noteq> SteadyCb \<longrightarrow> tid tm \<in> set (countdownTimeoutsRef s)))
      \<and> (\<forall>i \<in> set (countdownTimeoutsRef s). i < nextTimerId s)
      \<and> (\<forall>i. steadyTimeoutRef s = Some i \<longrightarrow> i < nextTimerId s))"

text \<open>
  Every pending steadiness timer is the one whose handle the component keeps in
  \<^verbatim>\<open>steadyTimeoutRef\<close>.
\<close>

definition steadyTracked :: "CaptureScreen \<Rightarrow> bool" where
  "steadyTracked s =
     (\<forall>tm \<in> set (timers s). cb tm = SteadyCb \<longrightarrow> steadyTimeoutRef s = Some (tid tm))"

text \<open>
  The handles in \<open>R\<close> are retired: none is pending, and none can be issued again.
\<close>

definition retired :: "nat set \<Rightarrow> CaptureScreen \<Rightarrow> bool" where
  "retired R s = ((\<forall>tm \<in> set (timers s). tid tm \<notin> R) \<and> (\<forall>i \<in> R. i < nextTimerId s))"


text \<open>The pending timers of the countdown.\<close>

definition countdownTimers :: "CaptureScreen \<Rightarrow> Timer list" where
  "countdownTimers s = filter (\<lambda>x. cb x \<noteq> SteadyCb) (timers s)"






section \<open>Basic facts about the handlers\<close>

lemmas handler_defs =
  react_def cameraChange_def analyzeFrame_begin_def analyzeFrame_resume_def onDetected_def onMissed_def
  onError_def handleToggleAutoCapture_def resetAutoCaptureState_def handleCapture_def
  onImageCaptured_def stopStream_def playBeep_def clearIfSet_def clearTimeout_def setTimeout_def
  clearCountdownTimeouts_eq

lemmas commit_defs =
  commit_def countdownDepsChanged_def intervalDepsChanged_def intervalEffect_def
  unmountCleanup_def

lemma commit_unchanged:
  "mounted new \<Longrightarrow>
   detectionStatus new = detectionStatus old \<Longrightarrow>
   autoCaptureEnabled new = autoCaptureEnabled old \<Longrightarrow>
   cameraReady new = cameraReady old \<Longrightarrow>
   streamGen new = streamGen old \<Longrightarrow> commit old new = new"
  by (simp add: commit_defs)

lemma commit_unmounted: "\<not> mounted old \<Longrightarrow> \<not> mounted new \<Longrightarrow> commit old new = new"
  by (simp add: commit_def)

lemma countdownEffect_fields:
  "mounted (countdownEffect s) = mounted s"
  "detectionStatus (countdownEffect s) = detectionStatus s"
  "autoCaptureEnabled (countdownEffect s) = autoCaptureEnabled s"
  "zoom (countdownEffect s) = zoom s"
  "detectionResult (countdownEffect s) = detectionResult s"
  "steadyTimeoutRef (countdownEffect s) = steadyTimeoutRef s"
  "analysisIntervalRef (countdownEffect s) = analysisIntervalRef s"
  "isAnalyzingRef (countdownEffect s) = isAnalyzingRef s"
  "inflight (countdownEffect s) = inflight s"
  "sentFrames (countdownEffect s) = sentFrames s"
  "captured (countdownEffect s) = captured s"
  "triggerLog (countdownEffect s) = triggerLog s"
  "stream (countdownEffect s) = stream s"
  "now (countdownEffect s) = now s"
  "cameraReady (countdownEffect s) = cameraReady s"
  "streamGen (countdownEffect s) = streamGen s"
  "contextAvailable (countdownEffect s) = contextAvailable s"
  "videoWidth (countdownEffect s) = videoWidth s"
  "videoHeight (countdownEffect s) = videoHeight s"
  by (simp_all add: countdownEffect_def handler_defs Let_def)

lemma commit_fields:
  "mounted (commit old new) = mounted new"
  "detectionStatus (commit old new) = detectionStatus new"
  "autoCaptureEnabled (commit old new) = autoCaptureEnabled new"
  "zoom (commit old new) = zoom new"
  "detectionResult (commit old new) = detectionResult new"
  "steadyTimeoutRef (commit old new) = steadyTimeoutRef new"
  "isAnalyzingRef (commit old new) = isAnalyzingRef new"
  "inflight (commit old new) = inflight new"
  "sentFrames (commit old new) = sentFrames new"
  "captured (commit old new) = captured new"
  "triggerLog (commit old new) = triggerLog new"
  "now (commit old new) = now new"
  "cameraReady (commit old new) = cameraReady new"
  "streamGen (commit old new) = streamGen new"
  "contextAvailable (commit old new) = contextAvailable new"
  "videoWidth (commit old new) = videoWidth new"
  "videoHeight (commit old new) = videoHeight new"
  by (simp_all add: commit_defs countdownEffect_fields clearCountdownTimeouts_eq stopStream_def
        Let_def split: option.splits)

text \<open>What a reaction leaves of the refs and the outside world, mounted or not.\<close>

lemma settle_fields:
  "mounted (settle old new) = mounted new"
  "steadyTimeoutRef (settle old new) = steadyTimeoutRef new"
  "isAnalyzingRef (settle old new) = isAnalyzingRef new"
  "inflight (settle old new) = inflight new"
  "sentFrames (settle old new) = sentFrames new"
  "captured (settle old new) = captured new"
  "triggerLog (settle old new) = triggerLog new"
  "now (settle old new) = now new"
  "contextAvailable (settle old new) = contextAvailable new"
  "videoWidth (settle old new) = videoWidth new"
  "videoHeight (settle old new) = videoHeight new"
  by (simp_all add: settle_def commit_fields keepState_def)

text \<open>What it leaves of the React state.\<close>

lemma settle_state:
  "detectionStatus (settle old new)
     = (if mounted old then detectionStatus new else detectionStatus old)"
  "autoCaptureEnabled (settle old new)
     = (if mounted old then autoCaptureEnabled new else autoCaptureEnabled old)"
  "zoom (settle old new) = (if mounted old then zoom new else zoom old)"
  "detectionResult (settle old new)
     = (if mounted old then detectionResult new else detectionResult old)"
  "cameraReady (settle old new) = (if mounted old then cameraReady new else cameraReady old)"
  "streamGen (settle old new) = (if mounted old then streamGen new else streamGen old)"
  by (simp_all add: settle_def commit_fields keepState_def)

lemma settle_mounted: "mounted old \<Longrightarrow> settle old new = commit old new"
  by (simp add: settle_def)

lemma step_AnalyzeTick: "step AnalyzeTick s = analyzeFrame_begin s"
  by (cases "mounted s")
     (simp_all add: step_def settle_def react_def analyzeFrame_begin_def commit_unchanged
        commit_unmounted keepState_def)



section \<open>Target zoom\<close>

text \<open>
  C8. For a detection whose box has width \<open>w = xMax - xMin > 0\<close>, the target zoom is
  \<open>clamp(0.40 / w, 1.0, 4.0)\<close>; width 0.40 gives 1.0 and width 0.10 gives 4.0.
\<close>

theorem targetZoom_is_clamp:
  assumes "w = xMax b - xMin b" and "0 < w"
  shows "targetZoom b = clamp_spec ((2 / 5) / w) 1 4
         \<and> (w = 2 / 5 \<longrightarrow> targetZoom b = 1)
         \<and> (w = 1 / 10 \<longrightarrow> targetZoom b = 4)"
proof -
  have clamp: "min (max 1 x) 4 = clamp_spec x 1 4" for x :: real
    by (simp add: clamp_spec_def min_def max_def)
  have tz: "targetZoom b = min (max 1 ((2 / 5) / w)) 4"
    using assms by (simp add: targetZoom_def Let_def)
  have a: "targetZoom b = clamp_spec ((2 / 5) / w) 1 4"
    by (simp only: tz clamp)
  have b: "w = 2 / 5 \<longrightarrow> targetZoom b = 1"
  proof
    assume w: "w = 2 / 5"
    have "(2 / 5) / w = 1" unfolding w by simp
    then have "min (max 1 ((2 / 5) / w)) 4 = (1::real)" by simp
    then show "targetZoom b = 1" by (simp only: tz)
  qed
  have c: "w = 1 / 10 \<longrightarrow> targetZoom b = 4"
  proof
    assume w: "w = 1 / 10"
    have "(2 / 5) / w = 4" unfolding w by simp
    then have "min (max 1 ((2 / 5) / w)) 4 = (4::real)" by simp
    then show "targetZoom b = 4" by (simp only: tz)
  qed
  show ?thesis using a b c by blast
qed

theorem targetZoom_is_clamp_witness:
  "targetZoom \<lparr> xMin = 3 / 10, yMin = 2 / 5, xMax = 2 / 5, yMax = 1 / 2 \<rparr> = clamp_spec ((2 / 5) / (1 / 10)) 1 4
   \<and> targetZoom \<lparr> xMin = 3 / 10, yMin = 2 / 5, xMax = 2 / 5, yMax = 1 / 2 \<rparr> = 4
   \<and> targetZoom \<lparr> xMin = 1 / 5, yMin = 2 / 5, xMax = 3 / 5, yMax = 1 / 2 \<rparr> = 1"
  using targetZoom_is_clamp [of "1 / 10" "\<lparr> xMin = 3 / 10, yMin = 2 / 5, xMax = 2 / 5, yMax = 1 / 2 \<rparr>"]
        targetZoom_is_clamp [of "2 / 5" "\<lparr> xMin = 1 / 5, yMin = 2 / 5, xMax = 3 / 5, yMax = 1 / 2 \<rparr>"]
  by simp

text \<open>
  It is this function the sampling step applies to the box of a response that has its
  \<^verbatim>\<open>xMin\<close> and \<^verbatim>\<open>xMax\<close>.
\<close>

lemma newZoom_numeric:
  "xMin b = Some x0 \<Longrightarrow> xMax b = Some x1 \<Longrightarrow>
   newZoom b = Num (targetZoom \<lparr> xMin = x0, yMin = 0, xMax = x1, yMax = 0 \<rparr>)"
  by (simp add: newZoom_def)

section \<open>The frame sent to the detection client\<close>

text \<open>
  C9, as stated, fails: the canvas width is fixed at 640 and the height follows the aspect
  ratio, so a portrait video of 1080 x 1920 is sent as 640 x 1137. Auto-capture is
  switched on at 0 ms and the first tick of the interval comes at 750 ms.
\<close>

theorem analysisFrame_portrait_counterexample:
  "feasible [(0, ToggleAutoCapture), (750, AnalyzeTick)] (initial 1080 1920)
   \<and> sentFrames (run [(0, ToggleAutoCapture), (750, AnalyzeTick)] (initial 1080 1920))
       = [\<lparr> frameWidth = 640, frameHeight = 1137, mime = ''image/jpeg'', quality = 4 / 5 \<rparr>]
   \<and> longerEdge (analysisFrame 1080 1920) = 1137
   \<and> \<not> longerEdge (analysisFrame 1080 1920) \<le> 640"
  by (simp add: possible_def tickDue_def advance.simps nextDue_def step_AnalyzeTick
        analyzeFrame_begin_def step_def settle_def react_def handleToggleAutoCapture_def
        commit_defs countdownEffect_def clearCountdownTimeouts_eq initial_def analysisFrame_def
        longerEdge_def)

text \<open>
  C9, amended. Every sampling step that starts sends one JPEG frame of quality 0.8 whose
  width is 640 and whose height is the video height scaled by \<open>640 / videoWidth\<close> and
  truncated (as a 32-bit unsigned number: no camera delivers a video so narrow that the
  scaled height reaches \<open>2 ^ 32\<close>). When the video is not taller than wide the longer
  edge of the frame is 640; when it is taller than wide the longer edge is the scaled
  height, at least 640.
\<close>

theorem analysisFrame_width_640:
  "sentFrames (step AnalyzeTick s) =
     (if isAnalyzingRef s \<or> \<not> mounted s \<or> \<not> autoCaptureEnabled s \<or> \<not> contextAvailable s
      then sentFrames s
      else sentFrames s @ [analysisFrame (videoWidth s) (videoHeight s)])
   \<and> frameWidth (analysisFrame vw vh) = 640
   \<and> frameHeight (analysisFrame vw vh)
       = (if vw = 0 then 0 else ((vh * 640) div vw) mod 2 ^ 32)
   \<and> (0 < vw \<longrightarrow> (vh * 640) div vw < 2 ^ 32 \<longrightarrow>
        frameHeight (analysisFrame vw vh) * vw \<le> vh * 640
        \<and> vh * 640 < (frameHeight (analysisFrame vw vh) + 1) * vw)
   \<and> quality (analysisFrame vw vh) = 4 / 5
   \<and> mime (analysisFrame vw vh) = ''image/jpeg''
   \<and> (vh \<le> vw \<longrightarrow> longerEdge (analysisFrame vw vh) = 640)
   \<and> (vw < vh \<longrightarrow> 0 < vw \<longrightarrow> (vh * 640) div vw < 2 ^ 32 \<longrightarrow>
        longerEdge (analysisFrame vw vh) = (vh * 640) div vw
        \<and> 640 \<le> longerEdge (analysisFrame vw vh))"
proof -
  have height: "frameHeight (analysisFrame vw vh) = (vh * 640) div vw"
    if "0 < vw" "(vh * 640) div vw < 2 ^ 32"
    using that by (simp add: analysisFrame_def)
  have floor: "frameHeight (analysisFrame vw vh) * vw \<le> vh * 640
               \<and> vh * 640 < (frameHeight (analysisFrame vw vh) + 1) * vw"
    if "0 < vw" "(vh * 640) div vw < 2 ^ 32"
  proof -
    have "(vh * 640) div vw * vw \<le> vh * 640"
      by (rule div_times_less_eq_dividend)
    moreover have "vh * 640 < ((vh * 640) div vw + 1) * vw"
      using that(1) dividend_less_div_times [of vw "vh * 640"] by (simp add: algebra_simps)
    ultimately show ?thesis by (simp only: height [OF that])
  qed
  have landscape: "longerEdge (analysisFrame vw vh) = 640" if "vh \<le> vw"
  proof (cases "vw = 0")
    case True
    then show ?thesis by (simp add: analysisFrame_def longerEdge_def)
  next
    case False
    have "(vh * 640) div vw \<le> (640 * vw) div vw"
      by (rule div_le_mono) (simp add: that)
    then have le: "(vh * 640) div vw \<le> 640"
      using False by simp
    have "((vh * 640) div vw) mod 2 ^ 32 \<le> (vh * 640) div vw"
      by (rule mod_less_eq_dividend)
    then show ?thesis using False le by (simp add: analysisFrame_def longerEdge_def)
  qed
  have portrait: "longerEdge (analysisFrame vw vh) = (vh * 640) div vw
                  \<and> 640 \<le> longerEdge (analysisFrame vw vh)"
    if "vw < vh" "0 < vw" "(vh * 640) div vw < 2 ^ 32"
  proof -
    have "640 * vw \<le> vh * 640" using that by simp
    then have "640 \<le> (vh * 640) div vw"
      using that by (simp add: less_eq_div_iff_mult_less_eq)
    then show ?thesis
      using height [OF that(2,3)] by (simp add: longerEdge_def analysisFrame_def)
  qed
  have sent: "sentFrames (step AnalyzeTick s) =
     (if isAnalyzingRef s \<or> \<not> mounted s \<or> \<not> autoCaptureEnabled s \<or> \<not> contextAvailable s
      then sentFrames s
      else sentFrames s @ [analysisFrame (videoWidth s) (videoHeight s)])"
    by (simp add: step_AnalyzeTick analyzeFrame_begin_def)
  have rest: "frameWidth (analysisFrame vw vh) = 640
     \<and> frameHeight (analysisFrame vw vh)
         = (if vw = 0 then 0 else ((vh * 640) div vw) mod 2 ^ 32)
     \<and> quality (analysisFrame vw vh) = 4 / 5
     \<and> mime (analysisFrame vw vh) = ''image/jpeg''"
    by (simp add: analysisFrame_def)
  show ?thesis
    using sent rest floor landscape portrait by blast
qed

theorem analysisFrame_width_640_witness:
  "sentFrames (step AnalyzeTick (step ToggleAutoCapture (initial 1920 1080)))
     = [analysisFrame 1920 1080]
   \<and> frameWidth (analysisFrame 1920 1080) = 640
   \<and> frameHeight (analysisFrame 1920 1080) = 360
   \<and> longerEdge (analysisFrame 1920 1080) = 640
   \<and> frameHeight (analysisFrame 1080 1920) = 1137
   \<and> 1137 * 1080 \<le> 1920 * (640::nat) \<and> 1920 * 640 < (1137 + 1) * (1080::nat)
   \<and> longerEdge (analysisFrame 1080 1920) = 1137"
proof -
  have s: "step ToggleAutoCapture (initial 1920 1080)
             = (initial 1920 1080)\<lparr> autoCaptureEnabled := True, analysisIntervalRef := Some 0 \<rparr>"
    by (simp add: step_def settle_def react_def handleToggleAutoCapture_def commit_defs
          countdownEffect_def clearCountdownTimeouts_eq initial_def)
  have h: "(1080 * 640) div 1920 < (2::nat) ^ 32" "(1920 * 640) div 1080 < (2::nat) ^ 32"
    by simp_all
  show ?thesis
    using analysisFrame_width_640 [of "step ToggleAutoCapture (initial 1920 1080)" 1920 1080]
          analysisFrame_width_640 [of "step ToggleAutoCapture (initial 1920 1080)" 1080 1920]
          h
    unfolding s by (simp add: initial_def)
qed

section \<open>The example states, evaluated\<close>

lemmas eval_defs =
  initial_def advance.simps nextDue_def fire_def runCallback_def step_def settle_def
  keepState_def handler_defs commit_defs countdownEffect_def findEyeInFrame_def
  targetZoom_def newZoom_def smoothZoom_def smoothTowards_def analysisFrame_def
  captureFrame_def Let_def

lemmas example_defs = foundEye_def noEye_def foundEmptyBox_def requestFailed_def eyeBox_def
  emptyBox_def

lemma firstCall_eq:
  "firstCall =
     (initial 1920 1080)
       \<lparr> autoCaptureEnabled := True, analysisIntervalRef := Some 0, isAnalyzingRef := True,
         now := 750, inflight := [Idle], sentFrames := [analysisFrame 1920 1080] \<rparr>"
  by (simp add: firstCall_def eval_defs)

lemma firstDetection_eq:
  "firstDetection =
     (initial 1920 1080)
       \<lparr> autoCaptureEnabled := True, detectionStatus := Tracking,
         detectionResult := Some \<lparr> success = True, box = Some eyeBox \<rparr>,
         zoom := Num (8 / 5), steadyTimeoutRef := Some 1, analysisIntervalRef := Some 900,
         now := 900, timers := [Timer 1 1400 SteadyCb], nextTimerId := 2,
         sentFrames := [analysisFrame 1920 1080] \<rparr>"
  by (simp add: firstDetection_def firstCall_eq example_defs eval_defs)

lemma lockedCounting_eq:
  "lockedCounting =
     (initial 1920 1080)
       \<lparr> autoCaptureEnabled := True, detectionStatus := Locked,
         detectionResult := Some \<lparr> success = True, box = Some eyeBox \<rparr>,
         zoom := Num (8 / 5), countdown := Some 2, countdownTimeoutsRef := [2, 3],
         steadyTimeoutRef := Some 1, analysisIntervalRef := Some 1400,
         countdownInProgress := True, now := 1400,
         timers := [Timer 2 2400 CountdownTick1, Timer 3 3400 CountdownTick2],
         nextTimerId := 4, sentFrames := [analysisFrame 1920 1080],
         beeps := [(440, 100)] \<rparr>"
  by (simp add: lockedCounting_def firstDetection_eq example_defs eval_defs)

lemma lockedInFlight_eq:
  "lockedInFlight =
     (initial 1920 1080)
       \<lparr> autoCaptureEnabled := True, detectionStatus := Locked,
         detectionResult := Some \<lparr> success = True, box = Some eyeBox \<rparr>,
         zoom := Num (8 / 5), countdown := Some 2, countdownTimeoutsRef := [2, 3],
         steadyTimeoutRef := Some 1, analysisIntervalRef := Some 1400,
         countdownInProgress := True, isAnalyzingRef := True, now := 2150,
         timers := [Timer 2 2400 CountdownTick1, Timer 3 3400 CountdownTick2],
         nextTimerId := 4, inflight := [Locked],
         sentFrames := [analysisFrame 1920 1080, analysisFrame 1920 1080],
         beeps := [(440, 100)] \<rparr>"
  by (simp add: lockedInFlight_def lockedCounting_eq example_defs eval_defs)

lemma restartPending_eq:
  "restartPending =
     (initial 1920 1080)
       \<lparr> autoCaptureEnabled := True, detectionStatus := Idle,
         detectionResult := Some \<lparr> success = True, box = Some eyeBox \<rparr>,
         zoom := Num (8 / 5), steadyTimeoutRef := Some 4, analysisIntervalRef := Some 2300,
         isAnalyzingRef := True, now := 3050,
         timers := [Timer 4 3200 SteadyCb], nextTimerId := 5, inflight := [Idle],
         sentFrames := [analysisFrame 1920 1080, analysisFrame 1920 1080,
                        analysisFrame 1920 1080],
         beeps := [(440, 100)] \<rparr>"
  by (simp add: restartPending_def lockedInFlight_eq example_defs eval_defs)

text \<open>
  The example states are states of the program: each lies on a trace whose sampling
  ticks are on the interval's schedule.
\<close>

lemma restartTrace_feasible:
  "feasible restartTrace (initial 1920 1080)"
  "run restartTrace (initial 1920 1080) = restartPending"
  "run (take 2 restartTrace) (initial 1920 1080) = firstCall"
  "run (take 3 restartTrace) (initial 1920 1080) = firstDetection"
  "run (take 4 restartTrace) (initial 1920 1080) = lockedInFlight"
  by (simp_all add: restartTrace_def restartPending_eq firstCall_eq firstDetection_eq
        lockedInFlight_eq possible_def tickDue_def example_defs eval_defs)

lemma laterDetections_feasible:
  "feasible laterDetections lockedCounting"
  by (simp add: laterDetections_def lockedCounting_eq possible_def tickDue_def example_defs
        eval_defs)

section \<open>Invariants along timed traces\<close>

lemma advance_preserves:
  assumes "P s"
    and fire: "\<And>tm s. P s \<Longrightarrow> tm \<in> set (timers s) \<Longrightarrow> P (fire tm s)"
    and tick: "\<And>s t. P s \<Longrightarrow> P (s\<lparr> now := max (now s) t \<rparr>)"
  shows "P (advance t s)"
  using assms(1)
proof (induction t s rule: advance.induct)
  case (1 t s)
  show ?case
  proof (cases "nextDue t s")
    case None
    then show ?thesis using "1.prems" tick by (simp add: advance.simps)
  next
    case (Some tm)
    then have "tm \<in> set (timers s)"
      by (auto simp: nextDue_def dest: earliest_mem split: option.splits if_splits)
    then have "P (fire tm s)" using "1.prems" fire by blast
    then have "P (advance t (fire tm s))" using "1.IH" Some by blast
    then show ?thesis using Some by (simp add: advance.simps)
  qed
qed

text \<open>The same along a trace all of whose events satisfy \<open>Q\<close>.\<close>

lemma run_preserves_where:
  assumes "P s"
    and "\<forall>te \<in> set es. Q (snd te)"
    and step: "\<And>e s. P s \<Longrightarrow> Q e \<Longrightarrow> P (step e s)"
    and fire: "\<And>tm s. P s \<Longrightarrow> tm \<in> set (timers s) \<Longrightarrow> P (fire tm s)"
    and tick: "\<And>s t. P s \<Longrightarrow> P (s\<lparr> now := max (now s) t \<rparr>)"
  shows "P (run es s)"
  using assms(1,2)
proof (induction es arbitrary: s)
  case Nil
  then show ?case by simp
next
  case (Cons te es)
  obtain t e where te: "te = (t, e)" by (cases te)
  have "P (advance t s)"
    using Cons.prems(1) fire tick by (rule advance_preserves)
  moreover have "Q e" using Cons.prems(2) te by simp
  ultimately have "P (step e (advance t s))" by (rule step)
  then show ?case using Cons.IH Cons.prems(2) te by simp
qed

lemma run_preserves:
  assumes "P s"
    and step: "\<And>e s. P s \<Longrightarrow> P (step e s)"
    and fire: "\<And>tm s. P s \<Longrightarrow> tm \<in> set (timers s) \<Longrightarrow> P (fire tm s)"
    and tick: "\<And>s t. P s \<Longrightarrow> P (s\<lparr> now := max (now s) t \<rparr>)"
  shows "P (run es s)"
proof (rule run_preserves_where [where Q = "\<lambda>e. True"])
  show "P s" by (rule assms(1))
  show "\<forall>te \<in> set es. True" by simp
  show "\<And>e s. P s \<Longrightarrow> True \<Longrightarrow> P (step e s)" by (rule step)
  show "\<And>tm s. P s \<Longrightarrow> tm \<in> set (timers s) \<Longrightarrow> P (fire tm s)" by (rule fire)
  show "\<And>s t. P s \<Longrightarrow> P (s\<lparr> now := max (now s) t \<rparr>)" by (rule tick)
qed

text \<open>What the effects preserve.\<close>

lemma commit_preserves:
  assumes "P new"
    and clear: "\<And>s. P s \<Longrightarrow> P (clearCountdownTimeouts s)"
    and effect: "\<And>s. P s \<Longrightarrow> P (countdownEffect (clearCountdownTimeouts s))"
    and interval: "\<And>s v. P s \<Longrightarrow> P (s\<lparr> analysisIntervalRef := v \<rparr>)"
    and stop: "\<And>s. P s \<Longrightarrow> P (stopStream s)"
  shows "P (commit old new)"
proof -
  have a: "P (countdownEffect (clearCountdownTimeouts new))"
    using assms(1) effect by blast
  have b: "P (intervalEffect s)" if "P s" for s
    using that interval by (simp add: intervalEffect_def)
  have c: "P (unmountCleanup new)"
    unfolding unmountCleanup_def using assms(1) clear interval stop by blast
  show ?thesis
    using assms(1) a b c by (simp add: commit_def Let_def)
qed

lemma settle_preserves:
  assumes "P new"
    and keep: "\<And>s. P s \<Longrightarrow> P (keepState old s)"
    and clear: "\<And>s. P s \<Longrightarrow> P (clearCountdownTimeouts s)"
    and effect: "\<And>s. P s \<Longrightarrow> P (countdownEffect (clearCountdownTimeouts s))"
    and interval: "\<And>s v. P s \<Longrightarrow> P (s\<lparr> analysisIntervalRef := v \<rparr>)"
    and stop: "\<And>s. P s \<Longrightarrow> P (stopStream s)"
  shows "P (settle old new)"
proof -
  have "P (if mounted old then new else keepState old new)"
    using assms(1) keep by simp
  then show ?thesis
    unfolding settle_def using clear effect interval stop by (rule commit_preserves)
qed

lemma runCallback_fields:
  "zoom (runCallback c s) = zoom s"
  "isAnalyzingRef (runCallback c s) = isAnalyzingRef s"
  "inflight (runCallback c s) = inflight s"
  "autoCaptureEnabled (runCallback c s) = autoCaptureEnabled s"
  "steadyTimeoutRef (runCallback c s) = steadyTimeoutRef s"
  "sentFrames (runCallback c s) = sentFrames s"
  "now (runCallback c s) = now s"
  "cameraReady (runCallback c s) = cameraReady s"
  "streamGen (runCallback c s) = streamGen s"
  by (cases c; simp add: runCallback_def handler_defs Let_def split: option.splits)+

lemma fire_fields:
  "zoom (fire tm s) = zoom s"
  "isAnalyzingRef (fire tm s) = isAnalyzingRef s"
  "inflight (fire tm s) = inflight s"
  "autoCaptureEnabled (fire tm s) = autoCaptureEnabled s"
  "steadyTimeoutRef (fire tm s) = steadyTimeoutRef s"
  "sentFrames (fire tm s) = sentFrames s"
  "now (fire tm s) = max (now s) (due tm)"
  "cameraReady (fire tm s) = cameraReady s"
  "streamGen (fire tm s) = streamGen s"
  by (simp_all add: fire_def settle_fields settle_state runCallback_fields)

section \<open>Every pending steadiness timer is the one in the ref\<close>

lemma steadyTracked_settle:
  assumes "steadyTracked new"
  shows "steadyTracked (settle old new)"
  using assms
proof (rule settle_preserves)
  show "\<And>s. steadyTracked s \<Longrightarrow> steadyTracked (keepState old s)"
    by (simp add: steadyTracked_def keepState_def)
  show "\<And>s. steadyTracked s \<Longrightarrow> steadyTracked (clearCountdownTimeouts s)"
    by (simp add: steadyTracked_def clearCountdownTimeouts_eq)
  show "\<And>s. steadyTracked s \<Longrightarrow> steadyTracked (countdownEffect (clearCountdownTimeouts s))"
    by (auto simp: steadyTracked_def countdownEffect_def clearCountdownTimeouts_eq
          setTimeout_def playBeep_def Let_def)
  show "\<And>s v. steadyTracked s \<Longrightarrow> steadyTracked (s\<lparr> analysisIntervalRef := v \<rparr>)"
    by (simp add: steadyTracked_def)
  show "\<And>s. steadyTracked s \<Longrightarrow> steadyTracked (stopStream s)"
    by (simp add: steadyTracked_def stopStream_def split: option.splits)
qed

lemma steadyTracked_react:
  assumes "steadyTracked s"
  shows "steadyTracked (react e s)"
proof (cases e)
  case AnalyzeTick
  then show ?thesis
    using assms by (auto simp: steadyTracked_def react_def analyzeFrame_begin_def)
next
  case (DetectionDone outcome)
  then show ?thesis
    using assms
    by (auto simp: steadyTracked_def react_def analyzeFrame_resume_def onDetected_def
          onMissed_def onError_def clearIfSet_def clearTimeout_def setTimeout_def Let_def
          split: list.splits option.splits DetectionOutcome.splits)
next
  case ToggleAutoCapture
  then show ?thesis
    using assms
    by (auto simp: steadyTracked_def react_def handleToggleAutoCapture_def
          resetAutoCaptureState_def clearIfSet_def clearTimeout_def clearCountdownTimeouts_eq
          Let_def split: option.splits)
next
  case CaptureButton
  then show ?thesis
    using assms
    by (auto simp: steadyTracked_def react_def handleCapture_def onImageCaptured_def
          stopStream_def Let_def split: option.splits)
next
  case (Camera c)
  then show ?thesis
    using assms
    by (cases c)
       (auto simp: steadyTracked_def react_def cameraChange_def stopStream_def
          split: option.splits)
qed

lemma steadyTracked_step: "steadyTracked s \<Longrightarrow> steadyTracked (step e s)"
  by (simp add: step_def steadyTracked_settle steadyTracked_react)

lemma steadyTracked_runCallback:
  assumes "steadyTracked s"
  shows "steadyTracked (runCallback c s)"
  using assms
  by (cases c)
     (auto simp: steadyTracked_def runCallback_def handleCapture_def onImageCaptured_def
        stopStream_def playBeep_def Let_def split: option.splits)

lemma steadyTracked_fire:
  assumes "steadyTracked s"
  shows "steadyTracked (fire tm s)"
proof -
  have "steadyTracked (s\<lparr> now := max (now s) (due tm), timers := remove1 tm (timers s) \<rparr>)"
    using assms by (auto simp: steadyTracked_def dest: notin_set_remove1)
  then show ?thesis
    by (simp add: fire_def steadyTracked_settle steadyTracked_runCallback)
qed

lemma steadyTracked_advance: "steadyTracked s \<Longrightarrow> steadyTracked (advance t s)"
proof (rule advance_preserves)
  show "\<And>tm s. steadyTracked s \<Longrightarrow> tm \<in> set (timers s) \<Longrightarrow> steadyTracked (fire tm s)"
    by (rule steadyTracked_fire)
  show "\<And>s t. steadyTracked s \<Longrightarrow> steadyTracked (s\<lparr> now := max (now s) t \<rparr>)"
    by (simp add: steadyTracked_def)
qed

lemma steadyTracked_run: "steadyTracked s \<Longrightarrow> steadyTracked (run es s)"
proof (rule run_preserves)
  show "\<And>e s. steadyTracked s \<Longrightarrow> steadyTracked (step e s)"
    by (rule steadyTracked_step)
  show "\<And>tm s. steadyTracked s \<Longrightarrow> tm \<in> set (timers s) \<Longrightarrow> steadyTracked (fire tm s)"
    by (rule steadyTracked_fire)
  show "\<And>s t. steadyTracked s \<Longrightarrow> steadyTracked (s\<lparr> now := max (now s) t \<rparr>)"
    by (simp add: steadyTracked_def)
qed

text \<open>It holds in every state a timed trace reaches from the initial state.\<close>

lemma steadyTracked_reachable: "steadyTracked (advance t (run es (initial vw vh)))"
proof -
  have "steadyTracked (initial vw vh)"
    by (simp add: steadyTracked_def initial_def)
  then show ?thesis
    by (intro steadyTracked_advance steadyTracked_run)
qed

section \<open>Detection outcomes without a usable box\<close>

text \<open>
  What \<^verbatim>\<open>findEyeInFrame\<close> resolves with has a usable box only if the response reports
  an eye and carries a box; a failed request, like a response without an eye or without
  a box, gives a result that is not usable.
\<close>

lemma findEyeInFrame_usable:
  "usable (findEyeInFrame api) \<longleftrightarrow> (\<exists>b. api = ApiResponse True (Some b))"
  by (cases api) (auto simp: findEyeInFrame_def usable_def split: option.splits)

lemma resume_unusable:
  "\<not> usable r \<Longrightarrow>
   analyzeFrame_resume (Resolved r) s =
     (case inflight s of
        [] \<Rightarrow> s
      | c # rest \<Rightarrow> (onMissed s)\<lparr> isAnalyzingRef := False, inflight := rest \<rparr>)"
  by (auto simp: usable_def analyzeFrame_resume_def split: list.splits option.splits)

lemma missed_idles:
  assumes "mounted s" and "inflight s \<noteq> []" and "\<not> usable r"
  shows "detectionStatus (step (DetectionDone (Resolved r)) s) = Idle"
    and "detectionResult (step (DetectionDone (Resolved r)) s) = None"
    and "zoom (step (DetectionDone (Resolved r)) s) = smoothTowards (Num 1) (zoom s)"
proof -
  obtain c rest where fl: "inflight s = c # rest"
    using assms(2) by (cases "inflight s") auto
  show "detectionStatus (step (DetectionDone (Resolved r)) s) = Idle"
    "detectionResult (step (DetectionDone (Resolved r)) s) = None"
    "zoom (step (DetectionDone (Resolved r)) s) = smoothTowards (Num 1) (zoom s)"
    using fl assms(1,3)
    by (simp_all add: step_def settle_state react_def resume_unusable onMissed_def
          clearIfSet_def clearTimeout_def Let_def split: option.splits)
qed

lemma missed_cancels_timer:
  assumes "inflight s \<noteq> []" and "\<not> usable r"
  shows "steadyTimeoutRef s = Some i \<Longrightarrow>
         \<forall>tm \<in> set (timers (step (DetectionDone (Resolved r)) s)). tid tm \<noteq> i"
    and "steadyTracked s \<Longrightarrow>
         \<forall>tm \<in> set (timers (step (DetectionDone (Resolved r)) s)). cb tm \<noteq> SteadyCb"
proof -
  obtain c rest where fl: "inflight s = c # rest"
    using assms(1) by (cases "inflight s") auto
  show "\<forall>tm \<in> set (timers (step (DetectionDone (Resolved r)) s)). tid tm \<noteq> i"
    if "steadyTimeoutRef s = Some i"
    using fl assms(2) that
    by (auto simp: step_def settle_def keepState_def react_def resume_unusable onMissed_def
          Let_def commit_defs countdownEffect_def clearCountdownTimeouts_eq clearIfSet_def
          clearTimeout_def setTimeout_def playBeep_def stopStream_def split: option.splits)
  show "\<forall>tm \<in> set (timers (step (DetectionDone (Resolved r)) s)). cb tm \<noteq> SteadyCb"
    if "steadyTracked s"
    using fl assms(2) that
    by (auto simp: steadyTracked_def step_def settle_def keepState_def react_def
          resume_unusable onMissed_def
          Let_def commit_defs countdownEffect_def clearCountdownTimeouts_eq clearIfSet_def
          clearTimeout_def setTimeout_def playBeep_def stopStream_def split: option.splits)
qed

text \<open>
  C2. Whenever a detection call ends without a usable bounding box, the state becomes
  idle, whatever it was, and no steadiness timer is left pending. This covers every way
  the call can end so: a response that carries no box, a response that reports no eye,
  and an error thrown inside the detection call, which \<^verbatim>\<open>findEyeInFrame\<close> catches and
  turns into a failed result.
\<close>

theorem no_usable_box_cancels_timer_and_idles:
  assumes "mounted s" and "steadyTracked s" and "inflight s \<noteq> []" and "\<not> usable r"
  shows "detectionStatus (step (DetectionDone (Resolved r)) s) = Idle
         \<and> (\<forall>tm \<in> set (timers (step (DetectionDone (Resolved r)) s)). cb tm \<noteq> SteadyCb)
         \<and> \<not> usable (findEyeInFrame ApiError)
         \<and> \<not> usable (findEyeInFrame (ApiResponse eyeFound None))
         \<and> \<not> usable (findEyeInFrame (ApiResponse False parsedBox))"
  using missed_idles(1) [OF assms(1,3,4)] missed_cancels_timer(2) [OF assms(3,4,2)]
  by (simp add: findEyeInFrame_usable)

theorem no_usable_box_cancels_timer_and_idles_witness:
  "mounted (advance 3100 restartPending)
   \<and> steadyTracked (advance 3100 restartPending)
   \<and> timers (advance 3100 restartPending) = [Timer 4 3200 SteadyCb]
   \<and> detectionStatus (step (DetectionDone noEye) (advance 3100 restartPending)) = Idle
   \<and> timers (step (DetectionDone noEye) (advance 3100 restartPending)) = []
   \<and> detectionStatus (step (DetectionDone requestFailed) (advance 3100 restartPending)) = Idle
   \<and> timers (step (DetectionDone requestFailed) (advance 3100 restartPending)) = []
   \<and> detectionStatus (advance 2300 lockedInFlight) = Locked
   \<and> detectionStatus (step (DetectionDone requestFailed) (advance 2300 lockedInFlight)) = Idle"
proof -
  let ?s = "advance 3100 restartPending" and ?l = "advance 2300 lockedInFlight"
  let ?miss = "\<lparr> success = False, box = None \<rparr>"
  have s: "?s = restartPending\<lparr> now := 3100 \<rparr>"
    by (simp add: restartPending_eq eval_defs)
  have l: "?l = lockedInFlight\<lparr> now := 2300 \<rparr>"
    by (simp add: lockedInFlight_eq eval_defs)
  have hs: "mounted ?s" "steadyTracked ?s" "inflight ?s \<noteq> []"
    "timers ?s = [Timer 4 3200 SteadyCb]"
    unfolding s by (simp_all add: steadyTracked_def restartPending_eq initial_def)
  have hl: "mounted ?l" "steadyTracked ?l" "inflight ?l \<noteq> []" "detectionStatus ?l = Locked"
    unfolding l by (simp_all add: steadyTracked_def lockedInFlight_eq initial_def)
  have u: "\<not> usable ?miss" by (simp add: usable_def)
  have e: "noEye = Resolved ?miss" "requestFailed = Resolved ?miss"
    by (simp_all add: noEye_def requestFailed_def findEyeInFrame_def)
  have t: "timers (step (DetectionDone (Resolved ?miss)) ?s) = []"
    unfolding s by (simp add: restartPending_eq eval_defs)
  show ?thesis
    using no_usable_box_cancels_timer_and_idles [OF hs(1) hs(2) hs(3) u]
          no_usable_box_cancels_timer_and_idles [OF hl(1) hl(2) hl(3) u]
          hs hl t
    by (simp add: e)
qed

text \<open>
  C3. A detection call that errors resolves with a failed result, and the sampling step
  handles it exactly as it handles any response without a usable box: the whole state
  after the step is the same. On the mounted screen the tracking state becomes idle,
  the zoom moves a fifth of the way to 1, the cached detection result is cleared and the
  steadiness timer held in the ref is cancelled.
\<close>

theorem erroring_call_handled_as_no_detection:
  "(\<not> usable r \<longrightarrow>
      step (detectionCompleted ApiError) s = step (DetectionDone (Resolved r)) s)
   \<and> (mounted s \<and> inflight s \<noteq> [] \<longrightarrow>
        detectionStatus (step (detectionCompleted ApiError) s) = Idle
        \<and> zoom (step (detectionCompleted ApiError) s) = smoothTowards (Num 1) (zoom s)
        \<and> detectionResult (step (detectionCompleted ApiError) s) = None
        \<and> (\<forall>i. steadyTimeoutRef s = Some i \<longrightarrow>
              (\<forall>tm \<in> set (timers (step (detectionCompleted ApiError) s)). tid tm \<noteq> i)))"
proof -
  have u: "\<not> usable (findEyeInFrame ApiError)"
    by (simp add: findEyeInFrame_usable)
  have same: "step (detectionCompleted ApiError) s = step (DetectionDone (Resolved r)) s"
    if "\<not> usable r"
    using that u by (simp add: detectionCompleted_def step_def react_def resume_unusable)
  have upd: "detectionStatus (step (detectionCompleted ApiError) s) = Idle
        \<and> zoom (step (detectionCompleted ApiError) s) = smoothTowards (Num 1) (zoom s)
        \<and> detectionResult (step (detectionCompleted ApiError) s) = None
        \<and> (\<forall>i. steadyTimeoutRef s = Some i \<longrightarrow>
              (\<forall>tm \<in> set (timers (step (detectionCompleted ApiError) s)). tid tm \<noteq> i))"
    if "mounted s" "inflight s \<noteq> []"
    unfolding detectionCompleted_def
    using missed_idles [OF that u] missed_cancels_timer(1) [OF that(2) u] by blast
  show ?thesis using same upd by blast
qed

theorem erroring_call_handled_as_no_detection_witness:
  "step (detectionCompleted ApiError) (advance 2300 lockedInFlight)
     = step (DetectionDone noEye) (advance 2300 lockedInFlight)
   \<and> step (detectionCompleted ApiError) (advance 2300 lockedInFlight)
     = step (DetectionDone (Resolved \<lparr> success = True, box = None \<rparr>))
         (advance 2300 lockedInFlight)
   \<and> zoom (advance 2300 lockedInFlight) = Num (8 / 5)
   \<and> detectionStatus (step (detectionCompleted ApiError) (advance 2300 lockedInFlight)) = Idle
   \<and> zoom (step (detectionCompleted ApiError) (advance 2300 lockedInFlight)) = Num (37 / 25)
   \<and> detectionResult (step (detectionCompleted ApiError) (advance 2300 lockedInFlight)) = None"
proof -
  let ?l = "advance 2300 lockedInFlight"
  have l: "?l = lockedInFlight\<lparr> now := 2300 \<rparr>"
    by (simp add: lockedInFlight_eq eval_defs)
  have hl: "mounted ?l" "inflight ?l \<noteq> []" "zoom ?l = Num (8 / 5)"
    unfolding l by (simp_all add: lockedInFlight_eq initial_def)
  have u: "\<not> usable \<lparr> success = False, box = None \<rparr>"
    "\<not> usable \<lparr> success = True, box = None \<rparr>"
    by (simp_all add: usable_def)
  have e: "noEye = Resolved \<lparr> success = False, box = None \<rparr>"
    by (simp add: noEye_def findEyeInFrame_def)
  have z: "smoothTowards (Num 1) (Num (8 / 5)) = Num (37 / 25)"
    by (simp add: smoothTowards_def smoothZoom_def)
  have a: "step (detectionCompleted ApiError) ?l
             = step (DetectionDone (Resolved \<lparr> success = False, box = None \<rparr>)) ?l"
    using erroring_call_handled_as_no_detection [of "\<lparr> success = False, box = None \<rparr>" ?l]
          u(1)
    by blast
  have b: "step (detectionCompleted ApiError) ?l
             = step (DetectionDone (Resolved \<lparr> success = True, box = None \<rparr>)) ?l"
    using erroring_call_handled_as_no_detection [of "\<lparr> success = True, box = None \<rparr>" ?l]
          u(2)
    by blast
  have c: "detectionStatus (step (detectionCompleted ApiError) ?l) = Idle
           \<and> zoom (step (detectionCompleted ApiError) ?l) = smoothTowards (Num 1) (zoom ?l)
           \<and> detectionResult (step (detectionCompleted ApiError) ?l) = None"
    using erroring_call_handled_as_no_detection [of "\<lparr> success = False, box = None \<rparr>" ?l]
          hl(1,2)
    by blast
  show ?thesis
    using a b c by (simp only: e hl(3) z)
qed

section \<open>Zoom\<close>












section \<open>Single flight\<close>

lemma tick_dropped:
  assumes "isAnalyzingRef s"
  shows "step AnalyzeTick s = s"
  using assms by (simp add: step_AnalyzeTick analyzeFrame_begin_def)

lemma tick_without_context:
  assumes "\<not> isAnalyzingRef s" "\<not> contextAvailable s"
  shows "\<not> isAnalyzingRef (step AnalyzeTick s) \<and> inflight (step AnalyzeTick s) = inflight s"
  using assms by (simp add: step_AnalyzeTick analyzeFrame_begin_def)

lemma tick_starts_call:
  assumes "\<not> isAnalyzingRef s" "mounted s" "autoCaptureEnabled s" "contextAvailable s"
  shows "isAnalyzingRef (step AnalyzeTick s)
         \<and> inflight (step AnalyzeTick s) = inflight s @ [detectionStatus s]"
  using assms by (simp add: step_AnalyzeTick analyzeFrame_begin_def)

lemma completion_clears_flag:
  assumes "inflight s \<noteq> []"
  shows "\<not> isAnalyzingRef (step (DetectionDone outcome) s)
         \<and> inflight (step (DetectionDone outcome) s) = tl (inflight s)"
  using assms
  by (simp add: step_def settle_fields react_def analyzeFrame_resume_def Let_def
        split: list.splits)

lemma singleFlight_step:
  assumes "singleFlight s"
  shows "singleFlight (step e s)"
proof (cases e)
  case AnalyzeTick
  then show ?thesis
    using assms
    by (simp add: singleFlight_def step_AnalyzeTick analyzeFrame_begin_def split: if_splits)
next
  case (DetectionDone outcome)
  show ?thesis
  proof (cases "inflight s")
    case Nil
    then show ?thesis
      using assms DetectionDone
      by (simp add: singleFlight_def step_def settle_fields react_def analyzeFrame_resume_def)
  next
    case (Cons c rest)
    then have "inflight s \<noteq> []" by simp
    from completion_clears_flag [OF this, of outcome] show ?thesis
      using assms DetectionDone Cons by (simp add: singleFlight_def split: if_splits)
  qed
next
  case ToggleAutoCapture
  then show ?thesis
    using assms
    by (auto simp: singleFlight_def step_def settle_fields react_def handleToggleAutoCapture_def
          resetAutoCaptureState_def clearIfSet_def clearTimeout_def clearCountdownTimeouts_eq
          Let_def split: option.splits if_splits)
next
  case CaptureButton
  then show ?thesis
    using assms
    by (auto simp: singleFlight_def step_def settle_fields react_def handleCapture_def
          onImageCaptured_def stopStream_def Let_def split: option.splits if_splits)
next
  case (Camera c)
  then show ?thesis
    using assms
    by (cases c)
       (auto simp: singleFlight_def step_def settle_fields react_def cameraChange_def
          stopStream_def split: option.splits if_splits)
qed

lemma singleFlight_run:
  assumes "singleFlight s"
  shows "singleFlight (run es s)"
  using assms
proof (rule run_preserves)
  show "\<And>e s. singleFlight s \<Longrightarrow> singleFlight (step e s)" by (rule singleFlight_step)
  show "\<And>tm s. singleFlight s \<Longrightarrow> tm \<in> set (timers s) \<Longrightarrow> singleFlight (fire tm s)"
    by (simp add: singleFlight_def fire_fields)
  show "\<And>s t. singleFlight s \<Longrightarrow> singleFlight (s\<lparr> now := max (now s) t \<rparr>)"
    by (simp add: singleFlight_def)
qed

text \<open>
  C6. At most one detection call is outstanding at any time: a sampling tick that begins
  while the in-flight flag is set changes nothing and starts no call, and the completion
  of a call clears the flag whether the call resolves with a box, resolves without one,
  or rejects; a step that stops early for want of a canvas context leaves the flag clear.
\<close>

theorem single_flight_guard:
  "length (inflight (run es (initial vw vh))) \<le> 1
   \<and> (isAnalyzingRef (run es (initial vw vh)) \<longleftrightarrow> inflight (run es (initial vw vh)) \<noteq> [])
   \<and> (isAnalyzingRef s \<longrightarrow> step AnalyzeTick s = s)
   \<and> (inflight s \<noteq> [] \<longrightarrow> \<not> isAnalyzingRef (step (DetectionDone outcome) s)
                             \<and> inflight (step (DetectionDone outcome) s) = tl (inflight s))
   \<and> (\<not> isAnalyzingRef s \<and> \<not> contextAvailable s \<longrightarrow>
        \<not> isAnalyzingRef (step AnalyzeTick s))"
proof -
  have "singleFlight (initial vw vh)"
    by (simp add: singleFlight_def initial_def)
  then have "singleFlight (run es (initial vw vh))"
    by (rule singleFlight_run)
  then have "length (inflight (run es (initial vw vh))) \<le> 1
       \<and> (isAnalyzingRef (run es (initial vw vh)) \<longleftrightarrow> inflight (run es (initial vw vh)) \<noteq> [])"
    by (auto simp: singleFlight_def split: if_splits)
  then show ?thesis
    using tick_dropped [of s] completion_clears_flag [of s outcome] tick_without_context [of s]
    by blast
qed

theorem single_flight_guard_witness:
  "isAnalyzingRef firstCall
   \<and> inflight firstCall = [Idle]
   \<and> step AnalyzeTick firstCall = firstCall
   \<and> \<not> isAnalyzingRef (step (DetectionDone foundEye) firstCall)
   \<and> \<not> isAnalyzingRef (step (DetectionDone noEye) firstCall)
   \<and> \<not> isAnalyzingRef (step (DetectionDone requestFailed) firstCall)
   \<and> \<not> isAnalyzingRef (step (DetectionDone Rejected) firstCall)"
proof -
  have a: "isAnalyzingRef firstCall"
    by (simp add: firstCall_eq)
  have fl: "inflight firstCall = [Idle]"
    by (simp add: firstCall_eq)
  then have ne: "inflight firstCall \<noteq> []" by simp
  show ?thesis
    using single_flight_guard [of "[]" 1920 1080 firstCall foundEye]
          single_flight_guard [of "[]" 1920 1080 firstCall noEye]
          single_flight_guard [of "[]" 1920 1080 firstCall requestFailed]
          single_flight_guard [of "[]" 1920 1080 firstCall Rejected]
          a fl ne
    by blast
qed

section \<open>Capture stops the camera\<close>

lemma stopStream_stops: "tracksStopped (stream s) (stream (stopStream s))"
  by (simp add: stopStream_def tracksStopped_def list_all_iff split: option.splits)







section \<open>Timer handles of reachable states\<close>

lemma wellFormed_initial: "wellFormed (initial vw vh)"
  by (simp add: wellFormed_def initial_def)

lemma wellFormed_settle:
  assumes "wellFormed new"
  shows "wellFormed (settle old new)"
  using assms
proof (rule settle_preserves)
  show "\<And>s. wellFormed s \<Longrightarrow> wellFormed (keepState old s)"
    by (simp add: wellFormed_def keepState_def)
  show "\<And>s. wellFormed s \<Longrightarrow> wellFormed (clearCountdownTimeouts s)"
    by (auto simp: wellFormed_def clearCountdownTimeouts_eq)
  show "\<And>s. wellFormed s \<Longrightarrow> wellFormed (countdownEffect (clearCountdownTimeouts s))"
    by (auto simp: wellFormed_def countdownEffect_def clearCountdownTimeouts_eq
          setTimeout_def playBeep_def Let_def less_Suc_eq)
  show "\<And>s v. wellFormed s \<Longrightarrow> wellFormed (s\<lparr> analysisIntervalRef := v \<rparr>)"
    by (simp add: wellFormed_def)
  show "\<And>s. wellFormed s \<Longrightarrow> wellFormed (stopStream s)"
    by (simp add: wellFormed_def stopStream_def split: option.splits)
qed

lemma wellFormed_react:
  assumes "wellFormed s"
  shows "wellFormed (react e s)"
proof (cases e)
  case AnalyzeTick
  then show ?thesis
    using assms by (auto simp: wellFormed_def react_def analyzeFrame_begin_def)
next
  case (DetectionDone outcome)
  then show ?thesis
    using assms
    by (auto simp: wellFormed_def react_def analyzeFrame_resume_def onDetected_def onMissed_def
          onError_def clearIfSet_def clearTimeout_def setTimeout_def Let_def less_Suc_eq
          split: list.splits option.splits DetectionOutcome.splits)
next
  case ToggleAutoCapture
  then show ?thesis
    using assms
    by (auto simp: wellFormed_def react_def handleToggleAutoCapture_def
          resetAutoCaptureState_def clearIfSet_def clearTimeout_def clearCountdownTimeouts_eq
          Let_def split: option.splits)
next
  case CaptureButton
  then show ?thesis
    using assms
    by (auto simp: wellFormed_def react_def handleCapture_def onImageCaptured_def
          stopStream_def Let_def split: option.splits)
next
  case (Camera c)
  then show ?thesis
    using assms
    by (cases c)
       (auto simp: wellFormed_def react_def cameraChange_def stopStream_def
          split: option.splits)
qed

lemma wellFormed_step: "wellFormed s \<Longrightarrow> wellFormed (step e s)"
  by (simp add: step_def wellFormed_settle wellFormed_react)

lemma wellFormed_runCallback:
  assumes "wellFormed s"
  shows "wellFormed (runCallback c s)"
  using assms
  by (cases c)
     (auto simp: wellFormed_def runCallback_def handleCapture_def onImageCaptured_def
        stopStream_def playBeep_def Let_def split: option.splits)

lemma wellFormed_fire:
  assumes "wellFormed s"
  shows "wellFormed (fire tm s)"
proof -
  have "wellFormed (s\<lparr> now := max (now s) (due tm), timers := remove1 tm (timers s) \<rparr>)"
    using assms by (auto simp: wellFormed_def dest: notin_set_remove1)
  then show ?thesis
    by (simp add: fire_def wellFormed_settle wellFormed_runCallback)
qed

lemma wellFormed_advance: "wellFormed s \<Longrightarrow> wellFormed (advance t s)"
proof (rule advance_preserves)
  show "\<And>tm s. wellFormed s \<Longrightarrow> tm \<in> set (timers s) \<Longrightarrow> wellFormed (fire tm s)"
    by (rule wellFormed_fire)
  show "\<And>s t. wellFormed s \<Longrightarrow> wellFormed (s\<lparr> now := max (now s) t \<rparr>)"
    by (simp add: wellFormed_def)
qed

lemma wellFormed_run: "wellFormed s \<Longrightarrow> wellFormed (run es s)"
proof (rule run_preserves)
  show "\<And>e s. wellFormed s \<Longrightarrow> wellFormed (step e s)"
    by (rule wellFormed_step)
  show "\<And>tm s. wellFormed s \<Longrightarrow> tm \<in> set (timers s) \<Longrightarrow> wellFormed (fire tm s)"
    by (rule wellFormed_fire)
  show "\<And>s t. wellFormed s \<Longrightarrow> wellFormed (s\<lparr> now := max (now s) t \<rparr>)"
    by (simp add: wellFormed_def)
qed

lemma wellFormed_reachable: "wellFormed (advance t (run es (initial vw vh)))"
  by (intro wellFormed_advance wellFormed_run wellFormed_initial)

section \<open>Cancelling the countdown\<close>

lemma retired_settle:
  assumes "retired R new"
  shows "retired R (settle old new)"
  using assms
proof (rule settle_preserves)
  show "\<And>s. retired R s \<Longrightarrow> retired R (keepState old s)"
    by (simp add: retired_def keepState_def)
  show "\<And>s. retired R s \<Longrightarrow> retired R (clearCountdownTimeouts s)"
    by (auto simp: retired_def clearCountdownTimeouts_eq)
  show "\<And>s. retired R s \<Longrightarrow> retired R (countdownEffect (clearCountdownTimeouts s))"
    by (auto simp: retired_def countdownEffect_def clearCountdownTimeouts_eq
          setTimeout_def playBeep_def Let_def less_Suc_eq)
  show "\<And>s v. retired R s \<Longrightarrow> retired R (s\<lparr> analysisIntervalRef := v \<rparr>)"
    by (simp add: retired_def)
  show "\<And>s. retired R s \<Longrightarrow> retired R (stopStream s)"
    by (simp add: retired_def stopStream_def split: option.splits)
qed

lemma retired_react:
  assumes "retired R s"
  shows "retired R (react e s)"
proof (cases e)
  case AnalyzeTick
  then show ?thesis
    using assms by (auto simp: retired_def react_def analyzeFrame_begin_def)
next
  case (DetectionDone outcome)
  then show ?thesis
    using assms
    by (auto simp: retired_def react_def analyzeFrame_resume_def onDetected_def onMissed_def
          onError_def clearIfSet_def clearTimeout_def setTimeout_def Let_def less_Suc_eq
          split: list.splits option.splits DetectionOutcome.splits)
next
  case ToggleAutoCapture
  then show ?thesis
    using assms
    by (auto simp: retired_def react_def handleToggleAutoCapture_def
          resetAutoCaptureState_def clearIfSet_def clearTimeout_def clearCountdownTimeouts_eq
          Let_def split: option.splits)
next
  case CaptureButton
  then show ?thesis
    using assms
    by (auto simp: retired_def react_def handleCapture_def onImageCaptured_def stopStream_def
          Let_def split: option.splits)
next
  case (Camera c)
  then show ?thesis
    using assms
    by (cases c)
       (auto simp: retired_def react_def cameraChange_def stopStream_def
          split: option.splits)
qed

lemma retired_runCallback:
  assumes "retired R s"
  shows "retired R (runCallback c s)"
  using assms
  by (cases c)
     (auto simp: retired_def runCallback_def handleCapture_def onImageCaptured_def
        stopStream_def playBeep_def Let_def split: option.splits)

lemma retired_fire:
  assumes "retired R s"
  shows "retired R (fire tm s)"
proof -
  have "retired R (s\<lparr> now := max (now s) (due tm), timers := remove1 tm (timers s) \<rparr>)"
    using assms by (auto simp: retired_def dest: notin_set_remove1)
  then show ?thesis
    by (simp add: fire_def retired_settle retired_runCallback)
qed

lemma retired_run: "retired R s \<Longrightarrow> retired R (run es s)"
proof (rule run_preserves)
  show "\<And>e s. retired R s \<Longrightarrow> retired R (step e s)"
    by (simp add: step_def retired_settle retired_react)
  show "\<And>tm s. retired R s \<Longrightarrow> tm \<in> set (timers s) \<Longrightarrow> retired R (fire tm s)"
    by (rule retired_fire)
  show "\<And>s t. retired R s \<Longrightarrow> retired R (s\<lparr> now := max (now s) t \<rparr>)"
    by (simp add: retired_def)
qed

text \<open>
  What the effect does when a reaction ends with a countdown in progress and the state
  no longer locked, or the feature switched off by the toggle.
\<close>

lemma commit_cancels:
  assumes "mounted new"
    and "detectionStatus old = Locked" "autoCaptureEnabled old"
    and "countdownInProgress new"
    and "detectionStatus new \<noteq> Locked"
    and "\<forall>tm \<in> set (timers new). cb tm \<noteq> SteadyCb \<longrightarrow> tid tm \<in> set (countdownTimeoutsRef new)"
  shows "(\<forall>tm \<in> set (timers (commit old new)). cb tm = SteadyCb)
         \<and> (\<forall>tm \<in> set (timers (commit old new)). tid tm \<notin> set (countdownTimeoutsRef new))
         \<and> countdown (commit old new) = None
         \<and> \<not> countdownInProgress (commit old new)
         \<and> nextTimerId (commit old new) = nextTimerId new"
  using assms
  by (auto simp: commit_defs countdownEffect_def clearCountdownTimeouts_eq Let_def)

lemma cancel_on_event:
  assumes wf: "wellFormed s"
    and cd: "countdownInProgress s" "detectionStatus s = Locked" "autoCaptureEnabled s"
    and leave: "detectionStatus (step e s) \<noteq> Locked \<or> \<not> autoCaptureEnabled (step e s)"
  shows "(\<forall>tm \<in> set (timers (step e s)). cb tm = SteadyCb)
         \<and> countdown (step e s) = None
         \<and> \<not> countdownInProgress (step e s)
         \<and> triggerLog (step e s) = triggerLog s
         \<and> captured (step e s) = captured s
         \<and> retired (set (countdownTimeoutsRef s)) (step e s)"
proof (cases "mounted s")
  case False
  then have False
    using leave cd by (simp add: step_def settle_state)
  then show ?thesis ..
next
  case True
  have st: "step e' s = commit s (react e' s)" for e'
    using True by (simp add: step_def settle_mounted)
  show ?thesis
  proof (cases e)
    case AnalyzeTick
    then have False
      using leave cd by (simp add: step_AnalyzeTick analyzeFrame_begin_def split: if_splits)
    then show ?thesis ..
  next
    case CaptureButton
    then have False
      using leave cd
      by (simp add: st react_def commit_fields handleCapture_def onImageCaptured_def
            stopStream_def Let_def split: option.splits if_splits)
    then show ?thesis ..
  next
    case (Camera c)
    then have False
      using leave cd
      by (cases c)
         (simp_all add: st react_def commit_fields cameraChange_def stopStream_def
            split: option.splits if_splits)
    then show ?thesis ..
  next
    case ToggleAutoCapture
    have tracked: "\<forall>tm \<in> set (timers s). cb tm \<noteq> SteadyCb \<longrightarrow> tid tm \<in> set (countdownTimeoutsRef s)"
      and below: "\<forall>i \<in> set (countdownTimeoutsRef s). i < nextTimerId s"
      using wf by (auto simp: wellFormed_def)
    show ?thesis
      using ToggleAutoCapture cd tracked below True
      by (auto simp: st react_def handleToggleAutoCapture_def resetAutoCaptureState_def
            clearIfSet_def clearTimeout_def clearCountdownTimeouts_eq commit_defs
            countdownEffect_def retired_def Let_def split: option.splits)
  next
    case (DetectionDone outcome)
    let ?new = "react e s"
    have stt: "detectionStatus (step e s) = detectionStatus ?new"
         "autoCaptureEnabled (step e s) = autoCaptureEnabled ?new"
      by (simp_all add: st commit_fields)
    have en: "autoCaptureEnabled ?new"
      using DetectionDone cd
      by (auto simp: react_def analyzeFrame_resume_def onDetected_def onMissed_def onError_def
            clearIfSet_def clearTimeout_def setTimeout_def Let_def
            split: list.splits option.splits DetectionOutcome.splits)
    then have unlocked: "detectionStatus ?new \<noteq> Locked"
      using leave stt by simp
    have keep: "countdownInProgress ?new \<and> countdownTimeoutsRef ?new = countdownTimeoutsRef s
                \<and> triggerLog ?new = triggerLog s \<and> captured ?new = captured s
                \<and> nextTimerId ?new = nextTimerId s \<and> set (timers ?new) \<subseteq> set (timers s)
                \<and> mounted ?new"
      using DetectionDone cd True
      by (auto simp: react_def analyzeFrame_resume_def onDetected_def onMissed_def onError_def
            clearIfSet_def clearTimeout_def setTimeout_def Let_def
            split: list.splits option.splits DetectionOutcome.splits)
    then have mt: "mounted ?new" and ip: "countdownInProgress ?new" by simp_all
    have tracked: "\<forall>tm \<in> set (timers ?new).
                     cb tm \<noteq> SteadyCb \<longrightarrow> tid tm \<in> set (countdownTimeoutsRef ?new)"
      using wf keep by (auto simp: wellFormed_def)
    have below: "\<forall>i \<in> set (countdownTimeoutsRef s). i < nextTimerId s"
      using wf by (auto simp: wellFormed_def)
    from commit_cancels [OF mt cd(2) cd(3) ip unlocked tracked] keep
    have c: "(\<forall>tm \<in> set (timers (step e s)). cb tm = SteadyCb)
           \<and> (\<forall>tm \<in> set (timers (step e s)). tid tm \<notin> set (countdownTimeoutsRef s))
           \<and> countdown (step e s) = None
           \<and> \<not> countdownInProgress (step e s)
           \<and> nextTimerId (step e s) = nextTimerId s"
      by (simp add: st)
    then show ?thesis
      using keep below by (simp add: st commit_fields retired_def)
  qed
qed

text \<open>
  C5. While a countdown is in progress, any reaction after which the state is no longer
  locked or the feature is no longer enabled cancels every countdown timer, clears the
  countdown display and the in-progress guard, and triggers no capture; the cancelled
  timers never become pending again, so that countdown never triggers a capture.
\<close>

theorem countdown_cancelled_when_lock_lost:
  assumes "wellFormed s"
    and "countdownInProgress s" "detectionStatus s = Locked" "autoCaptureEnabled s"
    and "detectionStatus (step e s) \<noteq> Locked \<or> \<not> autoCaptureEnabled (step e s)"
  shows "(\<forall>tm \<in> set (timers (step e s)). cb tm = SteadyCb)
         \<and> countdown (step e s) = None
         \<and> \<not> countdownInProgress (step e s)
         \<and> triggerLog (step e s) = triggerLog s
         \<and> captured (step e s) = captured s
         \<and> (\<forall>tm \<in> set (timers (run es (step e s))). tid tm \<notin> set (countdownTimeoutsRef s))"
proof -
  note c = cancel_on_event [OF assms]
  then have "retired (set (countdownTimeoutsRef s)) (run es (step e s))"
    by (simp add: retired_run)
  then have never: "\<forall>tm \<in> set (timers (run es (step e s))). tid tm \<notin> set (countdownTimeoutsRef s)"
    by (simp add: retired_def)
  show ?thesis using c never by simp
qed

theorem countdown_cancelled_when_lock_lost_witness:
  "wellFormed (advance 2300 lockedInFlight)
   \<and> countdownInProgress (advance 2300 lockedInFlight)
   \<and> timers (advance 2300 lockedInFlight)
       = [Timer 2 2400 CountdownTick1, Timer 3 3400 CountdownTick2]
   \<and> detectionStatus (step (DetectionDone noEye) (advance 2300 lockedInFlight)) = Idle
   \<and> countdown (step (DetectionDone noEye) (advance 2300 lockedInFlight)) = None
   \<and> \<not> countdownInProgress (step (DetectionDone noEye) (advance 2300 lockedInFlight))
   \<and> triggerLog (step (DetectionDone noEye) (advance 2300 lockedInFlight)) = []
   \<and> timers (step (DetectionDone noEye) (advance 2300 lockedInFlight)) = []
   \<and> \<not> autoCaptureEnabled (step ToggleAutoCapture (advance 2300 lockedInFlight))
   \<and> countdown (step ToggleAutoCapture (advance 2300 lockedInFlight)) = None
   \<and> \<not> countdownInProgress (step ToggleAutoCapture (advance 2300 lockedInFlight))
   \<and> triggerLog (step ToggleAutoCapture (advance 2300 lockedInFlight)) = []"
proof -
  let ?l = "advance 2300 lockedInFlight"
  have l: "?l = lockedInFlight\<lparr> now := 2300 \<rparr>"
    by (simp add: lockedInFlight_eq eval_defs)
  have wf: "wellFormed ?l"
    unfolding l by (simp add: wellFormed_def lockedInFlight_eq initial_def)
  have cd: "countdownInProgress ?l" "detectionStatus ?l = Locked"
    "autoCaptureEnabled ?l" "triggerLog ?l = []"
    "timers ?l = [Timer 2 2400 CountdownTick1, Timer 3 3400 CountdownTick2]"
    unfolding l by (simp_all add: lockedInFlight_eq initial_def)
  have l1: "detectionStatus (step (DetectionDone noEye) ?l) = Idle"
    unfolding l by (simp add: lockedInFlight_eq example_defs eval_defs)
  have t1: "timers (step (DetectionDone noEye) ?l) = []"
    unfolding l by (simp add: lockedInFlight_eq example_defs eval_defs)
  have l2: "\<not> autoCaptureEnabled (step ToggleAutoCapture ?l)"
    unfolding l by (simp add: lockedInFlight_eq eval_defs)
  show ?thesis
    using countdown_cancelled_when_lock_lost
            [of ?l "DetectionDone noEye" "[]", OF wf cd(1) cd(2) cd(3)]
          countdown_cancelled_when_lock_lost
            [of ?l ToggleAutoCapture "[]", OF wf cd(1) cd(2) cd(3)]
          wf cd l1 l2 t1
    by simp
qed

section \<open>Which timer fires next\<close>





lemma status_runCallback:
  "detectionStatus (runCallback c s) = (if c = SteadyCb then Locked else detectionStatus s)"
  by (cases c) (simp_all add: runCallback_def handler_defs Let_def split: option.splits)

lemma status_fire:
  "detectionStatus (fire tm s)
     = (if cb tm = SteadyCb \<and> mounted s then Locked else detectionStatus s)"
  by (simp add: fire_def settle_state status_runCallback)

lemma mounted_runCallback: "c \<noteq> CountdownTick2 \<Longrightarrow> mounted (runCallback c s) = mounted s"
  by (cases c) (simp_all add: runCallback_def playBeep_def)


lemma locked_advance:
  assumes "detectionStatus s = Locked"
  shows "detectionStatus (advance t s) = Locked"
  using assms
proof (rule advance_preserves)
  show "\<And>tm s. detectionStatus s = Locked \<Longrightarrow> tm \<in> set (timers s)
          \<Longrightarrow> detectionStatus (fire tm s) = Locked"
    by (simp add: status_fire)
  show "\<And>s t. detectionStatus s = Locked \<Longrightarrow> detectionStatus (s\<lparr> now := max (now s) t \<rparr>) = Locked"
    by simp
qed

text \<open>
  When a steadiness timer is the only pending timer, the state stays as it is until the
  timer is due and is locked from then on, if nothing else happens.
\<close>

lemma only_timer_waits:
  assumes "timers s = [tm]" "t < due tm"
  shows "detectionStatus (advance t s) = detectionStatus s"
  using assms by (simp add: advance.simps nextDue_def)

lemma only_timer_locks:
  assumes "timers s = [tm]" "cb tm = SteadyCb" "mounted s" "due tm \<le> t"
  shows "detectionStatus (advance t s) = Locked"
proof -
  have "advance t s = advance t (fire tm s)"
    using assms(1,4) by (simp add: advance.simps [of t s] nextDue_def)
  moreover have "detectionStatus (fire tm s) = Locked"
    using assms(2,3) by (simp add: status_fire)
  ultimately show ?thesis by (simp add: locked_advance)
qed

section \<open>The steadiness timer under repeated detections\<close>

text \<open>
  C1, as stated, fails: a successful detection clears the pending steadiness timer and,
  no countdown being in progress, starts a new one. The trace: auto-capture is switched
  on at 0 ms; the call of the tick at 750 ms finds the eye at 900 ms and the state locks
  at 1400 ms; the tick at 2150 ms starts a call; the user switches auto-capture off at
  2200 ms and on again at 2300 ms; the call resolves with the eye box at 2700 ms and
  starts a steadiness timer due at 3200 ms; the tick at 3050 ms starts the next call,
  which finds the eye at 3100 ms. That result replaces the pending timer by one due at
  3600 ms: at 3200 ms the state is still tracking, and it locks at 3600 ms.
\<close>

theorem steady_timer_restarted_counterexample:
  "feasible (restartTrace @ [(3100, DetectionDone foundEye)]) (initial 1920 1080)
   \<and> timers (advance 3100 (run restartTrace (initial 1920 1080))) = [Timer 4 3200 SteadyCb]
   \<and> timers (run (restartTrace @ [(3100, DetectionDone foundEye)]) (initial 1920 1080))
       = [Timer 5 3600 SteadyCb]
   \<and> detectionStatus
       (advance 3200 (run (restartTrace @ [(3100, DetectionDone foundEye)])
                        (initial 1920 1080))) = Tracking
   \<and> detectionStatus
       (advance 3600 (run (restartTrace @ [(3100, DetectionDone foundEye)])
                        (initial 1920 1080))) = Locked"
  by (simp add: restartTrace_def possible_def tickDue_def example_defs eval_defs)

text \<open>
  C1, amended. A successful detection result that arrives on the mounted screen while a
  steadiness timer is pending, the state not locked and no countdown in progress (the
  guard clear and no countdown timer pending) cancels the pending timer and starts a new
  one due 500 ms after the arrival, which is then the only pending timer: the timer is
  restarted by every such result. If nothing else happens, the state is not locked before
  those 500 ms have passed and is locked when they have.
\<close>

theorem detection_restarts_steady_timer:
  assumes "mounted s" and "wellFormed s" and "steadyTracked s"
    and "inflight s \<noteq> []"
    and "success r" "box r = Some b"
    and "steadyTimeoutRef s = Some i" "Timer i d SteadyCb \<in> set (timers s)"
    and "\<not> countdownInProgress s" "countdownTimers s = []"
    and "detectionStatus s \<noteq> Locked"
  shows "Timer i d SteadyCb \<notin> set (timers (step (DetectionDone (Resolved r)) s))
         \<and> timers (step (DetectionDone (Resolved r)) s)
             = [Timer (nextTimerId s) (now s + 500) SteadyCb]
         \<and> steadyTimeoutRef (step (DetectionDone (Resolved r)) s) = Some (nextTimerId s)
         \<and> (\<forall>t. t < now s + 500 \<longrightarrow>
               detectionStatus (advance t (step (DetectionDone (Resolved r)) s)) \<noteq> Locked)
         \<and> detectionStatus (advance (now s + 500) (step (DetectionDone (Resolved r)) s)) = Locked"
proof -
  let ?s' = "step (DetectionDone (Resolved r)) s"
  let ?new = "Timer (nextTimerId s) (now s + 500) SteadyCb"
  obtain c rest where fl: "inflight s = c # rest"
    using assms(4) by (cases "inflight s") auto
  have below: "i < nextTimerId s" "\<forall>j \<in> set (countdownTimeoutsRef s). j < nextTimerId s"
    using assms(2,7) by (auto simp: wellFormed_def)
  have "\<forall>tm \<in> set (timers s). cb tm = SteadyCb"
    using assms(10) by (auto simp: countdownTimers_def filter_empty_conv)
  then have all_i: "\<forall>tm \<in> set (timers s). tid tm = i"
    using assms(3,7) by (auto simp: steadyTracked_def)
  then have gone: "filter (\<lambda>tm. tid tm \<noteq> i) (timers s) = []"
    by (auto simp: filter_empty_conv)
  have fresh: "nextTimerId s \<notin> set (countdownTimeoutsRef s)"
    using below(2) by auto
  let ?r = "react (DetectionDone (Resolved r)) s"
  have r_timers: "timers ?r = [?new]"
    and r_ref: "steadyTimeoutRef ?r = Some (nextTimerId s)"
    and r_status: "detectionStatus ?r \<noteq> Locked"
    and r_fields: "mounted ?r" "countdownTimeoutsRef ?r = countdownTimeoutsRef s"
      "\<not> countdownInProgress ?r"
    using fl assms(1,5,6,7,9,11) gone
    by (simp_all add: react_def analyzeFrame_resume_def onDetected_def clearIfSet_def
          clearTimeout_def setTimeout_def Let_def)
  have st: "?s' = commit s ?r"
    using assms(1) by (simp add: step_def settle_mounted)
  have timers: "timers ?s' = [?new]"
    using r_timers r_status r_fields fresh
    by (simp add: st commit_defs countdownEffect_def clearCountdownTimeouts_eq Let_def)
  have ref: "steadyTimeoutRef ?s' = Some (nextTimerId s)"
    using r_ref by (simp add: st commit_fields)
  have status: "detectionStatus ?s' \<noteq> Locked" and mt: "mounted ?s'"
    using r_status r_fields(1) by (simp_all add: st commit_fields)
  have old: "Timer i d SteadyCb \<notin> set (timers ?s')"
    using timers below(1) by simp
  have before: "detectionStatus (advance t ?s') \<noteq> Locked" if "t < now s + 500" for t
    using only_timer_waits [OF timers, of t] that status by simp
  have "detectionStatus (advance (now s + 500) ?s') = Locked"
    using timers _ mt by (rule only_timer_locks) simp_all
  then show ?thesis using old timers ref before by blast
qed

theorem detection_restarts_steady_timer_witness:
  "mounted (advance 3100 restartPending)
   \<and> wellFormed (advance 3100 restartPending)
   \<and> steadyTracked (advance 3100 restartPending)
   \<and> detectionStatus (advance 3100 restartPending) = Idle
   \<and> timers (advance 3100 restartPending) = [Timer 4 3200 SteadyCb]
   \<and> timers (step (DetectionDone foundEye) (advance 3100 restartPending))
       = [Timer 5 3600 SteadyCb]
   \<and> steadyTimeoutRef (step (DetectionDone foundEye) (advance 3100 restartPending)) = Some 5
   \<and> detectionStatus
       (advance 3599 (step (DetectionDone foundEye) (advance 3100 restartPending))) \<noteq> Locked
   \<and> detectionStatus
       (advance 3600 (step (DetectionDone foundEye) (advance 3100 restartPending))) = Locked"
proof -
  let ?s = "advance 3100 restartPending"
  have s: "?s = restartPending\<lparr> now := 3100 \<rparr>"
    by (simp add: restartPending_eq eval_defs)
  have wf: "mounted ?s" "wellFormed ?s" "steadyTracked ?s"
    unfolding s
    by (simp_all add: wellFormed_def steadyTracked_def restartPending_eq initial_def)
  have h: "inflight ?s \<noteq> []" "steadyTimeoutRef ?s = Some 4"
    "Timer 4 3200 SteadyCb \<in> set (timers ?s)" "\<not> countdownInProgress ?s"
    "countdownTimers ?s = []" "detectionStatus ?s \<noteq> Locked"
    unfolding s by (simp_all add: countdownTimers_def restartPending_eq initial_def)
  have v: "nextTimerId ?s = 5" "now ?s = 3100" "detectionStatus ?s = Idle"
    "timers ?s = [Timer 4 3200 SteadyCb]"
    unfolding s by (simp_all add: restartPending_eq initial_def)
  have e: "foundEye = Resolved \<lparr> success = True, box = Some eyeBox \<rparr>"
    by (simp add: foundEye_def findEyeInFrame_def)
  have l: "(3599::nat) < 3100 + 500" by simp
  note th = detection_restarts_steady_timer
              [of ?s "\<lparr> success = True, box = Some eyeBox \<rparr>" eyeBox 4 3200,
               OF wf(1) wf(2) wf(3) h(1) _ _ h(2) h(3) h(4) h(5) h(6)]
  have "timers (step (DetectionDone (Resolved \<lparr> success = True, box = Some eyeBox \<rparr>)) ?s)
          = [Timer 5 3600 SteadyCb]
        \<and> steadyTimeoutRef
            (step (DetectionDone (Resolved \<lparr> success = True, box = Some eyeBox \<rparr>)) ?s) = Some 5
        \<and> detectionStatus
            (advance 3599
               (step (DetectionDone (Resolved \<lparr> success = True, box = Some eyeBox \<rparr>)) ?s))
            \<noteq> Locked
        \<and> detectionStatus
            (advance 3600
               (step (DetectionDone (Resolved \<lparr> success = True, box = Some eyeBox \<rparr>)) ?s))
            = Locked"
    using th l v(1,2) by simp
  then show ?thesis
    using wf v(3,4) by (simp only: e) simp
qed

section \<open>The countdown\<close>




















end
